(* ===== verification/Qcs_Prelude.thy ===== *)
theory Qcs_Prelude
  imports Main "HOL-Library.Word"
begin

text \<open>
  Shared vocabulary of the development: the outcome of a C function that may end the process
  (\<open>res\<close>), sequencing and loops over it, the rule collections the component
  theories fill, and the conversions between C integers and Isabelle's.
\<close>

unbundle bit_operations_syntax

named_theorems spec_rules \<open>introduction rules for \<open>res_spec\<close>\<close>

section \<open>Outcomes\<close>

text \<open>
  A function of the hypervisor either returns or ends the QEMU process. \<open>Assert_fail\<close>
  is the \<^verbatim>\<open>ASSERT\<close> macro (it calls \<^verbatim>\<open>exit(1)\<close>), \<open>G_assert\<close>
  is glib's \<^verbatim>\<open>g_assert\<close>, \<open>Out_of_bounds\<close> an access outside a C array, \<open>Null_deref\<close>
  a read through a null pointer, \<open>Div_by_zero\<close> an integer division by zero,
  \<open>Panic\<close> a call of Go's \<^verbatim>\<open>panic\<close>
  and \<open>Diverges\<close> a loop that exceeds the fuel of its model.
\<close>

datatype fault = Assert_fail | G_assert | Out_of_bounds | Null_deref | Div_by_zero | Panic | Diverges

datatype 'a res = Ok 'a | Fault fault

primrec res_bind :: "'a res \<Rightarrow> ('a \<Rightarrow> 'b res) \<Rightarrow> 'b res" where
  "res_bind (Ok x) f = f x"
| "res_bind (Fault e) f = Fault e"

definition c_assert :: "bool \<Rightarrow> 's \<Rightarrow> 's res" where
  "c_assert b s = (if b then Ok s else Fault Assert_fail)"

definition g_assert :: "bool \<Rightarrow> 's \<Rightarrow> 's res" where
  "g_assert b s = (if b then Ok s else Fault G_assert)"

primrec is_ok :: "'a res \<Rightarrow> bool" where
  "is_ok (Ok x) = True"
| "is_ok (Fault e) = False"

text \<open>
  \<open>res_spec b P r\<close>: if \<open>r\<close> returns, its value satisfies \<open>P\<close>, and if \<open>b\<close> holds it
  does return. With \<open>b = False\<close> this is partial correctness, with \<open>b = True\<close> total correctness.
\<close>

primrec res_spec :: "bool \<Rightarrow> ('a \<Rightarrow> bool) \<Rightarrow> 'a res \<Rightarrow> bool" where
  "res_spec b P (Ok x) = P x"
| "res_spec b P (Fault e) = (\<not> b)"

lemma res_bind_assoc: "res_bind (res_bind r f) g = res_bind r (\<lambda>x. res_bind (f x) g)"
  by (cases r) simp_all

lemma res_bind_eq_Ok [simp]: "res_bind r f = Ok y \<longleftrightarrow> (\<exists>x. r = Ok x \<and> f x = Ok y)"
  by (cases r) simp_all

lemma res_bind_eq_Fault:
  "res_bind r f = Fault e \<longleftrightarrow> r = Fault e \<or> (\<exists>x. r = Ok x \<and> f x = Fault e)"
  by (cases r) simp_all

lemma c_assert_eq_Ok [simp]: "c_assert b s = Ok t \<longleftrightarrow> b \<and> t = s"
  by (auto simp: c_assert_def)

lemma g_assert_eq_Ok [simp]: "g_assert b s = Ok t \<longleftrightarrow> b \<and> t = s"
  by (auto simp: g_assert_def)

lemma c_assert_True [simp]: "c_assert True s = Ok s"
  by (simp add: c_assert_def)

lemma g_assert_True [simp]: "g_assert True s = Ok s"
  by (simp add: g_assert_def)

lemma is_ok_iff: "is_ok r \<longleftrightarrow> (\<exists>x. r = Ok x)"
  by (cases r) simp_all

lemma res_specD: "res_spec b P r \<Longrightarrow> r = Ok x \<Longrightarrow> P x"
  by simp

lemma res_spec_total: "res_spec True P r \<Longrightarrow> \<exists>x. r = Ok x \<and> P x"
  by (cases r) simp_all

lemma res_spec_mono: "res_spec b P r \<Longrightarrow> (\<And>x. P x \<Longrightarrow> Q x) \<Longrightarrow> res_spec b Q r"
  by (cases r) simp_all

lemma res_spec_weaken: "res_spec b' P r \<Longrightarrow> (b \<Longrightarrow> b') \<Longrightarrow> res_spec b P r"
  by (cases r) auto

lemma res_spec_bind [spec_rules]:
  "res_spec b P r \<Longrightarrow> (\<And>x. P x \<Longrightarrow> res_spec b Q (f x)) \<Longrightarrow> res_spec b Q (res_bind r f)"
  by (cases r) simp_all

lemma res_spec_Ok [spec_rules]: "P x \<Longrightarrow> res_spec b P (Ok x)"
  by simp

lemma res_spec_c_assert [spec_rules]:
  "(b \<Longrightarrow> a) \<Longrightarrow> (a \<Longrightarrow> P s) \<Longrightarrow> res_spec b P (c_assert a s)"
  by (auto simp: c_assert_def)

lemma res_spec_g_assert [spec_rules]:
  "(b \<Longrightarrow> a) \<Longrightarrow> (a \<Longrightarrow> P s) \<Longrightarrow> res_spec b P (g_assert a s)"
  by (auto simp: g_assert_def)

lemma res_spec_bind_c_assert [spec_rules]:
  "(b \<Longrightarrow> a) \<Longrightarrow> (a \<Longrightarrow> res_spec b Q (f s)) \<Longrightarrow> res_spec b Q (res_bind (c_assert a s) f)"
  by (auto simp: c_assert_def)

lemma res_spec_bind_g_assert [spec_rules]:
  "(b \<Longrightarrow> a) \<Longrightarrow> (a \<Longrightarrow> res_spec b Q (f s)) \<Longrightarrow> res_spec b Q (res_bind (g_assert a s) f)"
  by (auto simp: g_assert_def)

lemma res_spec_if [spec_rules]:
  "(a \<Longrightarrow> res_spec b P x) \<Longrightarrow> (\<not> a \<Longrightarrow> res_spec b P y) \<Longrightarrow> res_spec b P (if a then x else y)"
  by simp

lemma res_spec_option [spec_rules]:
  "(x = None \<Longrightarrow> res_spec b P a) \<Longrightarrow> (\<And>y. x = Some y \<Longrightarrow> res_spec b P (f y)) \<Longrightarrow>
   res_spec b P (case x of None \<Rightarrow> a | Some y \<Rightarrow> f y)"
  by (cases x) simp_all

lemma res_spec_prod [spec_rules]:
  "(\<And>y z. x = (y, z) \<Longrightarrow> res_spec b P (f y z)) \<Longrightarrow> res_spec b P (case x of (y, z) \<Rightarrow> f y z)"
  by (cases x) simp

lemma res_spec_let [spec_rules]: "res_spec b P (f v) \<Longrightarrow> res_spec b P (let x = v in f x)"
  by simp

section \<open>Loops\<close>

text \<open>A counted loop \<^verbatim>\<open>for (i = a; i < b; i++)\<close> whose body updates the state.\<close>

fun foreach :: "'i list \<Rightarrow> ('i \<Rightarrow> 's \<Rightarrow> 's res) \<Rightarrow> 's \<Rightarrow> 's res" where
  "foreach [] f s = Ok s"
| "foreach (x # xs) f s = res_bind (f x s) (foreach xs f)"

lemma foreach_append: "foreach (xs @ ys) f s = res_bind (foreach xs f s) (foreach ys f)"
proof (induction xs arbitrary: s)
  case Nil
  then show ?case by simp
next
  case (Cons x xs)
  show ?case by (cases "f x s") (simp_all add: Cons.IH)
qed

text \<open>The invariant of a loop speaks of the elements still to come, or of the next index.\<close>

lemma foreach_spec:
  assumes "I xs s" and "\<And>x ys s. I (x # ys) s \<Longrightarrow> res_spec b (I ys) (f x s)"
  shows "res_spec b (I []) (foreach xs f s)"
  using assms(1)
proof (induction xs arbitrary: s)
  case Nil
  then show ?case by simp
next
  case (Cons x xs)
  show ?case
    unfolding foreach.simps by (rule res_spec_bind [OF assms(2) [OF Cons.prems] Cons.IH])
qed

lemma foreach_upto_spec:
  assumes "I m s" and "m \<le> n" and "\<And>i s. m \<le> i \<Longrightarrow> i < n \<Longrightarrow> I i s \<Longrightarrow> res_spec b (I (i + 1)) (f i s)"
  shows "res_spec b (I n) (foreach [m..n - 1] f s)"
proof -
  define J where "J ys s \<longleftrightarrow> (\<exists>i. m \<le> i \<and> i \<le> n \<and> ys = [i..n - 1] \<and> I i s)" for ys s
  have "res_spec b (J []) (foreach [m..n - 1] f s)"
  proof (rule foreach_spec)
    show "J [m..n - 1] s"
      using assms(1,2) by (auto simp: J_def)
    show "res_spec b (J ys) (f x s)" if J: "J (x # ys) s" for x ys s
    proof -
      obtain i where i: "m \<le> i" "i \<le> n" "x # ys = [i..n - 1]" "I i s"
        using J by (auto simp: J_def)
      then have "i < n" and "x = i" and "ys = [i + 1..n - 1]"
        by (auto simp: upto.simps [of i] split: if_splits)
      then show ?thesis
        using i assms(3) [of i s] by (auto simp: J_def elim!: res_spec_mono intro!: exI [of _ "i + 1"])
    qed
  qed
  then show ?thesis
    by (rule res_spec_mono) (auto simp: J_def upto.simps split: if_splits)
qed

text \<open>A loop that keeps \<open>J\<close> and establishes \<open>Q x\<close> for every element, where no later step undoes an earlier one.\<close>

lemma foreach_collect:
  assumes "J s"
    and step: "\<And>x s. x \<in> set xs \<Longrightarrow> J s \<Longrightarrow> res_spec b (\<lambda>t. J t \<and> Q x t \<and> le s t) (f x s)"
    and stable: "\<And>x s t. Q x s \<Longrightarrow> le s t \<Longrightarrow> Q x t"
    and "reflp le" and "transp le"
  shows "res_spec b (\<lambda>t. J t \<and> (\<forall>x\<in>set xs. Q x t) \<and> le s t) (foreach xs f s)"
  using assms(1) step
proof (induction xs arbitrary: s)
  case Nil
  then show ?case using assms(4) by (simp add: reflpD)
next
  case (Cons x xs)
  have tail: "res_spec b (\<lambda>t. J t \<and> (\<forall>x\<in>set xs. Q x t) \<and> le s t) (foreach xs f s)" if "J s" for s
    using that Cons.IH [OF that] Cons.prems(2) by simp
  show ?case
    unfolding foreach.simps
  proof (rule res_spec_bind [OF Cons.prems(2) [OF _ Cons.prems(1)]])
    show "x \<in> set (x # xs)" by simp
    show "res_spec b (\<lambda>u. J u \<and> (\<forall>x\<in>set (x # xs). Q x u) \<and> le s u) (foreach xs f t)"
      if "J t \<and> Q x t \<and> le s t" for t
      using that tail [of t] stable [of x t] assms(5) by (auto elim!: res_spec_mono dest: transpD)
  qed
qed

text \<open>A loop that searches an index range for the first hit.\<close>

lemma find_upto_Some:
  "List.find P [m..n] = Some i \<longleftrightarrow> m \<le> i \<and> i \<le> n \<and> P i \<and> (\<forall>j. m \<le> j \<and> j < i \<longrightarrow> \<not> P j)"
proof (induction "nat (n - m + 1)" arbitrary: m)
  case 0
  then show ?case by simp
next
  case (Suc k)
  then have le: "m \<le> n" by simp
  have IH: "List.find P [m + 1..n] = Some i \<longleftrightarrow> m + 1 \<le> i \<and> i \<le> n \<and> P i \<and> (\<forall>j. m + 1 \<le> j \<and> j < i \<longrightarrow> \<not> P j)"
    by (rule Suc.hyps) (use Suc.hyps(2) in simp)
  have e: "[m..n] = m # [m + 1..n]" using le by (simp add: upto_rec1)
  show ?case
  proof (cases "P m")
    case True
    then show ?thesis using le unfolding e by auto
  next
    case False
    have "m \<le> i \<and> P i \<longleftrightarrow> m + 1 \<le> i \<and> P i" using False by (cases "i = m") auto
    moreover have "(\<forall>j. m \<le> j \<and> j < i \<longrightarrow> \<not> P j) \<longleftrightarrow> (\<forall>j. m + 1 \<le> j \<and> j < i \<longrightarrow> \<not> P j)"
    proof -
      have "m \<le> j \<longleftrightarrow> j = m \<or> m + 1 \<le> j" for j :: int by auto
      then show ?thesis using False by metis
    qed
    ultimately show ?thesis using False IH unfolding e by (simp, blast)
  qed
qed
lemma find_upto_None: "List.find P [m..n] = None \<longleftrightarrow> (\<forall>i. m \<le> i \<and> i \<le> n \<longrightarrow> \<not> P i)"
  by (auto simp: find_None_iff)

section \<open>C integers\<close>

type_synonym u64 = "64 word"
type_synonym u32 = "32 word"
type_synonym u8 = "8 word"

text \<open>\<^verbatim>\<open>(int)\<close> of a 64-bit and of a 32-bit unsigned value.\<close>

definition int_of_u64 :: "u64 \<Rightarrow> int" where
  "int_of_u64 x = sint (ucast x :: u32)"

definition int_of_u32 :: "u32 \<Rightarrow> int" where
  "int_of_u32 x = sint x"

text \<open>A negative \<^verbatim>\<open>int\<close> returned as a \<^verbatim>\<open>target_ulong\<close>.\<close>

definition ulong_of_int :: "int \<Rightarrow> u64" where
  "ulong_of_int i = word_of_int i"

end
