(* ===== verification/Guest_State.thy ===== *)
theory Guest_State
  imports Qcs_Prelude
begin

text \<open>
  The data of the scheduler: the constants and structures of
  \<^verbatim>\<open>include/qemu/qcsched/*.h\<close>, the fields that QEMU's \<^verbatim>\<open>CPUState\<close> gained for the
  scheduler, the per-CPU hardware breakpoint tables, and one record \<open>qstate\<close> that collects the
  global variables the handlers share. A C \<^verbatim>\<open>int\<close> is an \<open>int\<close>, a
  \<^verbatim>\<open>target_ulong\<close> a 64-bit word, an array a function of its index, a \<^verbatim>\<open>CPUState *\<close> the
  CPU's index, a \<^verbatim>\<open>struct qcsched_entry *\<close> the entry's index in \<^verbatim>\<open>sched.entries\<close>.
\<close>

section \<open>Constants\<close>

definition MAX_SCHEDPOINTS :: int where "MAX_SCHEDPOINTS = 256"
definition MAX_CPUS :: int where "MAX_CPUS = 8"
definition END_OF_SCHEDPOINT_WINDOW :: int where
  "END_OF_SCHEDPOINT_WINDOW = MAX_SCHEDPOINTS + 1"
definition QCSCHED_DUMMY_BREAKPOINT :: u64 where "QCSCHED_DUMMY_BREAKPOINT = NOT 0"
definition WATCHDOG_BREAKPOINT_COUNT_MAX :: int where "WATCHDOG_BREAKPOINT_COUNT_MAX = 10"
definition WATCHDOG_BREAKPOINT_COUNT_KILL_QEMU :: int where
  "WATCHDOG_BREAKPOINT_COUNT_KILL_QEMU = 100"
definition SCHEDPOINT_WINDOW_SIZE :: int where "SCHEDPOINT_WINDOW_SIZE = 3"
definition TRAMPOLINE_ESCAPE_MAGIC :: u32 where "TRAMPOLINE_ESCAPE_MAGIC = 0x75da1791"

text \<open>Linux error numbers, and gdbstub's breakpoint types.\<close>

definition ENOENT :: int where "ENOENT = 2"
definition EINTR :: int where "EINTR = 4"
definition EAGAIN :: int where "EAGAIN = 11"
definition EFAULT :: int where "EFAULT = 14"
definition EBUSY :: int where "EBUSY = 16"
definition EEXIST :: int where "EEXIST = 17"
definition EINVAL :: int where "EINVAL = 22"
definition ENOSYS :: int where "ENOSYS = 38"
definition ENOBUFS :: int where "ENOBUFS = 105"

lemmas errno_defs = ENOENT_def EINTR_def EAGAIN_def EFAULT_def EBUSY_def EEXIST_def EINVAL_def
  ENOSYS_def ENOBUFS_def

definition GDB_BREAKPOINT_SW :: int where "GDB_BREAKPOINT_SW = 0"
definition GDB_BREAKPOINT_HW :: int where "GDB_BREAKPOINT_HW = 1"
definition GDB_WATCHPOINT_WRITE :: int where "GDB_WATCHPOINT_WRITE = 2"
definition GDB_WATCHPOINT_ACCESS :: int where "GDB_WATCHPOINT_ACCESS = 4"

section \<open>Scheduling points\<close>

datatype qcschedpoint_footprint =
    footprint_preserved
  | footprint_missed
  | footprint_dropped
  | footprint_hit
  | footprint_not_addressed

text \<open>The value of the enumerator, as \<^verbatim>\<open>(target_ulong)\<close>.\<close>

primrec footprint_code :: "qcschedpoint_footprint \<Rightarrow> u64" where
  "footprint_code footprint_preserved = 0"
| "footprint_code footprint_missed = 1"
| "footprint_code footprint_dropped = 2"
| "footprint_code footprint_hit = 3"
| "footprint_code footprint_not_addressed = 4"

lemma footprint_code_inject: "footprint_code a = footprint_code b \<longleftrightarrow> a = b"
  by (cases a; cases b) simp_all

record qcschedpoint =
  sp_addr :: u64
  sp_order :: int
  sp_footprint :: qcschedpoint_footprint

record vmi_task =
  task_struct :: u64

text \<open>
  \<^verbatim>\<open>struct qcsched_breakpoint\<close> also declares a back pointer to the schedpoint, which no
  code reads or writes; only \<^verbatim>\<open>installed\<close> is state.
\<close>

record qcsched_entry =
  schedpoint :: qcschedpoint
  installed :: bool
  e_task :: vmi_task
  e_cpu :: int

abbreviation e_addr :: "qcsched_entry \<Rightarrow> u64" where "e_addr e \<equiv> sp_addr (schedpoint e)"
abbreviation e_order :: "qcsched_entry \<Rightarrow> int" where "e_order e \<equiv> sp_order (schedpoint e)"
abbreviation e_footprint :: "qcsched_entry \<Rightarrow> qcschedpoint_footprint" where
  "e_footprint e \<equiv> sp_footprint (schedpoint e)"

record qcsched_breakpoint_record =
  rec_RIP :: u64
  rec_count :: int

record qcsched_schedpoint_window =
  w_total :: int
  w_activated :: int
  w_from :: int
  w_until :: int
  w_cpu :: int
  w_left_behind :: int

section \<open>CPU states of the schedule\<close>

datatype qcsched_cpu_state =
    qcsched_cpu_idle
  | qcsched_cpu_ready
  | qcsched_cpu_activated
  | qcsched_cpu_deactivated

text \<open>The code compares the enumerators as integers; the order is that of their declaration.\<close>

primrec cpu_state_code :: "qcsched_cpu_state \<Rightarrow> nat" where
  "cpu_state_code qcsched_cpu_idle = 0"
| "cpu_state_code qcsched_cpu_ready = 1"
| "cpu_state_code qcsched_cpu_activated = 2"
| "cpu_state_code qcsched_cpu_deactivated = 3"

instantiation qcsched_cpu_state :: linorder
begin

definition less_eq_qcsched_cpu_state :: "qcsched_cpu_state \<Rightarrow> qcsched_cpu_state \<Rightarrow> bool" where
  "less_eq_qcsched_cpu_state a b \<longleftrightarrow> cpu_state_code a \<le> cpu_state_code b"

definition less_qcsched_cpu_state :: "qcsched_cpu_state \<Rightarrow> qcsched_cpu_state \<Rightarrow> bool" where
  "less_qcsched_cpu_state a b \<longleftrightarrow> cpu_state_code a < cpu_state_code b"

instance
proof
  fix x y z :: qcsched_cpu_state
  show "x < y \<longleftrightarrow> x \<le> y \<and> \<not> y \<le> x"
    by (auto simp: less_eq_qcsched_cpu_state_def less_qcsched_cpu_state_def)
  show "x \<le> x" and "x \<le> y \<Longrightarrow> y \<le> z \<Longrightarrow> x \<le> z" and "x \<le> y \<or> y \<le> x"
    by (auto simp: less_eq_qcsched_cpu_state_def)
  show "x \<le> y \<Longrightarrow> y \<le> x \<Longrightarrow> x = y"
    by (cases x; cases y) (simp_all add: less_eq_qcsched_cpu_state_def)
qed

end

lemmas cpu_state_order = less_eq_qcsched_cpu_state_def less_qcsched_cpu_state_def

section \<open>The schedule\<close>

record qcsched =
  entries :: "int \<Rightarrow> qcsched_entry"
  last_breakpoint :: "int \<Rightarrow> qcsched_breakpoint_record"
  schedpoint_window :: "int \<Rightarrow> qcsched_schedpoint_window"
  cpu_state :: "int \<Rightarrow> qcsched_cpu_state"
  total :: int
  current :: int
  orig_nr_bps :: int
  nr_cpus :: int
  kssb_enabled :: bool
  activated :: bool
  used :: bool

section \<open>Virtual machine introspection\<close>

record qcsched_vmi_lock =
  lockdep_addr :: u64
  lock_ip :: u64
  trylock :: int
  lock_read :: int

record qcsched_vmi_lock_info =
  lock_count :: int
  acquired :: "int \<Rightarrow> qcsched_vmi_lock"

record qcsched_lockdep_whitelist =
  wl_count :: int
  whitelist :: "int \<Rightarrow> u64"

record qcsched_vmi_info =
  trampoline_addr :: "int \<Rightarrow> u64"
  hook_addr :: u64
  per_cpu_offset :: "int \<Rightarrow> u64"
  vmi_current_task :: u64
  vmi_ssb_do_emulate :: u64
  vmi_preempt_count :: u64
  lock_info :: "int \<Rightarrow> qcsched_vmi_lock_info"
  lockdep_whitelist :: qcsched_lockdep_whitelist

section \<open>Per-CPU execution state\<close>

text \<open>
  \<^verbatim>\<open>struct qcsched_exec_info\<close> in the default build (the blocker, not the trampoline).
  \<open>timer\<close> is the state of the POSIX timer \<^verbatim>\<open>timerid\<close>: the seconds it is armed with.
\<close>

record qcsched_exec_info =
  blocked :: bool
  waking_up :: bool
  kicked :: bool
  timer :: "int option"

record kvm_regs =
  rax :: u64
  rbx :: u64
  rcx :: u64
  rdx :: u64
  rsi :: u64
  rdi :: u64
  rsp :: u64
  rbp :: u64
  r8 :: u64
  r9 :: u64
  r10 :: u64
  r11 :: u64
  r12 :: u64
  r13 :: u64
  r14 :: u64
  r15 :: u64
  rip :: u64
  rflags :: u64

text \<open>The fields of \<^verbatim>\<open>CPUState\<close> that the scheduler reads or writes.\<close>

record CPUState =
  regs :: kvm_regs
  qcsched_dirty :: bool
  qcsched_force_wakeup :: bool
  hcall_cookie :: u64
  breakpoint_cookie :: u64
  timer_cookie :: u64
  singlestep_enabled :: bool
  immediate_exit :: bool

record hw_bp =
  bp_addr :: u64
  bp_len :: int
  bp_type :: int

record percpu_hw_breakpoint =
  bp :: "int \<Rightarrow> hw_bp"
  nb :: int

record kvm_guest_debug =
  control :: u32
  debugreg :: "int \<Rightarrow> u64"

text \<open>
  What lies outside the repository: the results of system calls. \<open>ext_set_guest_debug n c\<close> is
  the result of the \<open>n\<close>-th \<^verbatim>\<open>KVM_SET_GUEST_DEBUG\<close> ioctl, issued for CPU \<open>c\<close>;
  \<open>ext_stack_dbg\<close> is the uninitialised stack slot the ioctl argument is built in;
  \<open>ext_as_ok a n\<close> tells whether a transfer of \<open>n\<close> bytes at guest-physical \<open>a\<close> is
  \<^verbatim>\<open>MEMTX_OK\<close>; \<open>ext_kvm_regs\<close> is KVM's copy of the registers.
\<close>

record external =
  ext_set_guest_debug :: "nat \<Rightarrow> int \<Rightarrow> int"
  ext_stack_dbg :: kvm_guest_debug
  ext_as_ok :: "u64 \<Rightarrow> nat \<Rightarrow> bool"
  ext_timer_settime :: "int \<Rightarrow> int"
  ext_timer_create :: "int \<Rightarrow> int"
  ext_get_regs :: "int \<Rightarrow> int"
  ext_set_regs :: "int \<Rightarrow> int"

section \<open>The global state\<close>

text \<open>
  \<open>cpus\<close> is the queue \<^verbatim>\<open>CPU_FOREACH\<close> walks, \<open>cpu_of c\<close> the \<^verbatim>\<open>CPUState\<close> with
  index \<open>c\<close>, \<open>vcpu_regs c\<close> the registers KVM runs that CPU with,
  \<open>guest_debug c\<close> the debug registers last handed to KVM, \<open>phys_page c\<close> the
  translation of guest-virtual pages (\<open>- 1\<close> where a page is not mapped) and
  \<open>pmem\<close> guest-physical memory.
\<close>

record qstate =
  sched :: qcsched
  vmi_info :: qcsched_vmi_info
  infos :: "int \<Rightarrow> qcsched_exec_info"
  cpus :: "int list"
  cpu_of :: "int \<Rightarrow> CPUState"
  vcpu_regs :: "int \<Rightarrow> kvm_regs"
  hw_breakpoint :: "int \<Rightarrow> percpu_hw_breakpoint"
  guest_debug :: "int \<Rightarrow> kvm_guest_debug"
  nr_ioctls :: nat
  warn_once :: bool
  iothread_locked :: bool
  current_cpu :: int
  vm_running :: bool
  phys_page :: "int \<Rightarrow> u64 \<Rightarrow> u64"
  pmem :: "u64 \<Rightarrow> u8"
  ext :: external

abbreviation entry :: "qstate \<Rightarrow> int \<Rightarrow> qcsched_entry" where
  "entry s i \<equiv> entries (sched s) i"
abbreviation window :: "qstate \<Rightarrow> int \<Rightarrow> qcsched_schedpoint_window" where
  "window s c \<equiv> schedpoint_window (sched s) c"
abbreviation tot :: "qstate \<Rightarrow> int" where "tot s \<equiv> total (sched s)"
abbreviation RIP :: "qstate \<Rightarrow> int \<Rightarrow> u64" where "RIP s c \<equiv> rip (regs (cpu_of s c))"

subsection \<open>Updates in place\<close>

definition upd_sched :: "(qcsched \<Rightarrow> qcsched) \<Rightarrow> qstate \<Rightarrow> qstate" where
  "upd_sched f s = s\<lparr>sched := f (sched s)\<rparr>"

definition upd_entry :: "int \<Rightarrow> (qcsched_entry \<Rightarrow> qcsched_entry) \<Rightarrow> qstate \<Rightarrow> qstate" where
  "upd_entry i f s =
     s\<lparr>sched := (sched s)\<lparr>entries := (entries (sched s))(i := f (entry s i))\<rparr>\<rparr>"

definition upd_window ::
  "int \<Rightarrow> (qcsched_schedpoint_window \<Rightarrow> qcsched_schedpoint_window) \<Rightarrow> qstate \<Rightarrow> qstate" where
  "upd_window c f s =
     s\<lparr>sched := (sched s)\<lparr>schedpoint_window := (schedpoint_window (sched s))(c := f (window s c))\<rparr>\<rparr>"

definition upd_cpu :: "int \<Rightarrow> (CPUState \<Rightarrow> CPUState) \<Rightarrow> qstate \<Rightarrow> qstate" where
  "upd_cpu c f s = s\<lparr>cpu_of := (cpu_of s)(c := f (cpu_of s c))\<rparr>"

definition upd_info ::
  "int \<Rightarrow> (qcsched_exec_info \<Rightarrow> qcsched_exec_info) \<Rightarrow> qstate \<Rightarrow> qstate" where
  "upd_info c f s = s\<lparr>infos := (infos s)(c := f (infos s c))\<rparr>"

definition upd_vmi :: "(qcsched_vmi_info \<Rightarrow> qcsched_vmi_info) \<Rightarrow> qstate \<Rightarrow> qstate" where
  "upd_vmi f s = s\<lparr>vmi_info := f (vmi_info s)\<rparr>"

lemmas upd_defs = upd_sched_def upd_entry_def upd_window_def upd_cpu_def upd_info_def upd_vmi_def

text \<open>\<^verbatim>\<open>memset(entry, 0, sizeof *entry)\<close>.\<close>

definition zero_entry :: qcsched_entry where
  "zero_entry = \<lparr>schedpoint = \<lparr>sp_addr = 0, sp_order = 0, sp_footprint = footprint_preserved\<rparr>,
     installed = False, e_task = \<lparr>task_struct = 0\<rparr>, e_cpu = 0\<rparr>"

lemma zero_entry_simps [simp]:
  "e_addr zero_entry = 0" "e_order zero_entry = 0" "e_footprint zero_entry = footprint_preserved"
  "installed zero_entry = False" "e_cpu zero_entry = 0" "task_struct (e_task zero_entry) = 0"
  by (simp_all add: zero_entry_def)

section \<open>The state at start-up\<close>

text \<open>
  The scheduler's variables are static: C starts them as zeros. \<open>boot_state\<close> is that state on a
  machine with the CPUs \<open>cs\<close>, the page tables \<open>pages\<close>, the memory \<open>mem\<close> and the
  system \<open>x\<close> around it.
\<close>

definition zero_regs :: kvm_regs where
  "zero_regs = \<lparr>rax = 0, rbx = 0, rcx = 0, rdx = 0, rsi = 0, rdi = 0, rsp = 0, rbp = 0, r8 = 0, r9 = 0,
     r10 = 0, r11 = 0, r12 = 0, r13 = 0, r14 = 0, r15 = 0, rip = 0, rflags = 0\<rparr>"

definition zero_window :: qcsched_schedpoint_window where
  "zero_window = \<lparr>w_total = 0, w_activated = 0, w_from = 0, w_until = 0, w_cpu = 0, w_left_behind = 0\<rparr>"

definition zero_sched :: qcsched where
  "zero_sched = \<lparr>entries = \<lambda>_. zero_entry, last_breakpoint = \<lambda>_. \<lparr>rec_RIP = 0, rec_count = 0\<rparr>,
     schedpoint_window = \<lambda>_. zero_window, cpu_state = \<lambda>_. qcsched_cpu_idle, total = 0, current = 0,
     orig_nr_bps = 0, nr_cpus = 0, kssb_enabled = False, activated = False, used = False\<rparr>"

definition zero_vmi :: qcsched_vmi_info where
  "zero_vmi = \<lparr>trampoline_addr = \<lambda>_. 0, hook_addr = 0, per_cpu_offset = \<lambda>_. 0, vmi_current_task = 0,
     vmi_ssb_do_emulate = 0, vmi_preempt_count = 0,
     lock_info = \<lambda>_. \<lparr>lock_count = 0, acquired = \<lambda>_. \<lparr>lockdep_addr = 0, lock_ip = 0, trylock = 0, lock_read = 0\<rparr>\<rparr>,
     lockdep_whitelist = \<lparr>wl_count = 0, whitelist = \<lambda>_. 0\<rparr>\<rparr>"

definition zero_cpu :: CPUState where
  "zero_cpu = \<lparr>regs = zero_regs, qcsched_dirty = False, qcsched_force_wakeup = False, hcall_cookie = 0,
     breakpoint_cookie = 0, timer_cookie = 0, singlestep_enabled = False, immediate_exit = False\<rparr>"

definition boot_state ::
  "int list \<Rightarrow> (int \<Rightarrow> u64 \<Rightarrow> u64) \<Rightarrow> (u64 \<Rightarrow> u8) \<Rightarrow> external \<Rightarrow> qstate" where
  "boot_state cs pages mem x =
     \<lparr>sched = zero_sched, vmi_info = zero_vmi,
      infos = \<lambda>_. \<lparr>blocked = False, waking_up = False, kicked = False, timer = None\<rparr>,
      cpus = cs, cpu_of = \<lambda>_. zero_cpu, vcpu_regs = \<lambda>_. zero_regs,
      hw_breakpoint = \<lambda>_. \<lparr>bp = \<lambda>_. \<lparr>bp_addr = 0, bp_len = 0, bp_type = 0\<rparr>, nb = 0\<rparr>,
      guest_debug = \<lambda>_. \<lparr>control = 0, debugreg = \<lambda>_. 0\<rparr>, nr_ioctls = 0, warn_once = False,
      iothread_locked = False, current_cpu = 0, vm_running = True, phys_page = pages, pmem = mem,
      ext = x\<rparr>"

text \<open>A system on which every call succeeds.\<close>

definition ideal_external :: external where
  "ideal_external = \<lparr>ext_set_guest_debug = \<lambda>_ _. 0, ext_stack_dbg = \<lparr>control = 0, debugreg = \<lambda>_. 0\<rparr>,
     ext_as_ok = \<lambda>_ _. True, ext_timer_settime = \<lambda>_. 0, ext_timer_create = \<lambda>_. 0,
     ext_get_regs = \<lambda>_. 0, ext_set_regs = \<lambda>_. 0\<rparr>"

text \<open>Two worker CPUs, pages mapped to themselves, memory all zero.\<close>

definition example_boot :: qstate where
  "example_boot = boot_state [0, 1, 2] (\<lambda>_ a. a) (\<lambda>_. 0) ideal_external"

lemmas boot_defs = example_boot_def boot_state_def zero_sched_def zero_vmi_def zero_cpu_def zero_regs_def
  zero_window_def ideal_external_def

end
