(* ===== verification/Kvm_Breakpoint.thy ===== *)
theory Kvm_Breakpoint
  imports Guest_State
begin

text \<open>
  Hardware breakpoints per CPU: \<^verbatim>\<open>target/i386/kvm/kvm-percpu.c\<close> (the tables and the debug
  registers built from them), \<^verbatim>\<open>accel/kvm/kvm-percpu.c\<close> (insertion and removal followed by
  the ioctl) and \<^verbatim>\<open>kvm_update_guest_debug\<close> of \<^verbatim>\<open>accel/kvm/kvm-all.c\<close>. The
  locale \<open>bp_table\<close> is the contract of such a table of bounded capacity over the set of addresses
  it holds; the tables of the model are an interpretation of it.
\<close>

section \<open>The tables\<close>

definition find_hw_breakpoint_cpu :: "qstate \<Rightarrow> int \<Rightarrow> u64 \<Rightarrow> int \<Rightarrow> int \<Rightarrow> int" where
  "find_hw_breakpoint_cpu s c addr len type =
     (let t = hw_breakpoint s c in
      case List.find (\<lambda>n. bp_addr (bp t n) = addr \<and> bp_type (bp t n) = type \<and>
                          (bp_len (bp t n) = len \<or> len = - 1)) [0..nb t - 1] of
        Some n \<Rightarrow> n
      | None \<Rightarrow> - 1)"

definition kvm_arch_insert_hw_breakpoint_cpu ::
  "qstate \<Rightarrow> int \<Rightarrow> u64 \<Rightarrow> int \<Rightarrow> int \<Rightarrow> int \<times> qstate" where
  "kvm_arch_insert_hw_breakpoint_cpu s c addr len type =
     (if type \<noteq> GDB_BREAKPOINT_HW then (- ENOSYS, s)
      else let len = 1 in
        if find_hw_breakpoint_cpu s c addr len type \<ge> 0 then (- EEXIST, s)
        else if nb (hw_breakpoint s c) = 4 then (- ENOBUFS, s)
        else let t = hw_breakpoint s c;
                 t' = t\<lparr>bp := (bp t)(nb t := \<lparr>bp_addr = addr, bp_len = len, bp_type = type\<rparr>),
                        nb := nb t + 1\<rparr>
             in (0, s\<lparr>hw_breakpoint := (hw_breakpoint s)(c := t')\<rparr>))"

definition kvm_arch_remove_hw_breakpoint_cpu ::
  "qstate \<Rightarrow> int \<Rightarrow> u64 \<Rightarrow> int \<Rightarrow> int \<Rightarrow> int \<times> qstate" where
  "kvm_arch_remove_hw_breakpoint_cpu s c addr len type =
     (let n = find_hw_breakpoint_cpu s c addr (if type = GDB_BREAKPOINT_HW then 1 else len) type
      in if n < 0 then (- ENOENT, s)
         else let t = hw_breakpoint s c;
                  nb' = nb t - 1;
                  t' = t\<lparr>nb := nb', bp := (bp t)(n := bp t nb')\<rparr>
              in (0, s\<lparr>hw_breakpoint := (hw_breakpoint s)(c := t')\<rparr>))"

definition kvm_arch_remove_all_hw_breakpoints_cpu :: "qstate \<Rightarrow> int \<Rightarrow> qstate" where
  "kvm_arch_remove_all_hw_breakpoints_cpu s c =
     s\<lparr>hw_breakpoint := (hw_breakpoint s)(c := (hw_breakpoint s c)\<lparr>nb := 0\<rparr>)\<rparr>"

section \<open>Debug registers\<close>

definition KVM_GUESTDBG_ENABLE :: u32 where "KVM_GUESTDBG_ENABLE = 1"
definition KVM_GUESTDBG_SINGLESTEP :: u32 where "KVM_GUESTDBG_SINGLESTEP = 2"
definition KVM_GUESTDBG_USE_HW_BP :: u32 where "KVM_GUESTDBG_USE_HW_BP = 0x20000"

text \<open>The arrays \<^verbatim>\<open>type_code\<close> and \<^verbatim>\<open>len_code\<close>; the indices not named are zero.\<close>

definition type_code :: "int \<Rightarrow> u64" where
  "type_code t = (if t = GDB_WATCHPOINT_WRITE then 1 else if t = GDB_WATCHPOINT_ACCESS then 3 else 0)"

definition len_code :: "int \<Rightarrow> u64" where
  "len_code l = (if l = 2 then 1 else if l = 4 then 3 else if l = 8 then 2 else 0)"

definition dr7_bits :: "percpu_hw_breakpoint \<Rightarrow> int \<Rightarrow> u64" where
  "dr7_bits t n = push_bit (nat (n * 2)) 2 OR push_bit (nat (16 + n * 4)) (type_code (bp_type (bp t n)))
     OR push_bit (nat (18 + n * 4)) (len_code (bp_len (bp t n)))"

definition set_debugreg :: "percpu_hw_breakpoint \<Rightarrow> int \<Rightarrow> (int \<Rightarrow> u64) \<Rightarrow> int \<Rightarrow> u64" where
  "set_debugreg t n d = (let d1 = d(n := bp_addr (bp t n)) in d1(7 := d1 7 OR dr7_bits t n))"

definition kvm_arch_update_guest_debug_cpu :: "qstate \<Rightarrow> int \<Rightarrow> kvm_guest_debug \<Rightarrow> kvm_guest_debug" where
  "kvm_arch_update_guest_debug_cpu s c dbg =
     (let t = hw_breakpoint s c in
      if nb t > 0
      then dbg\<lparr>control := control dbg OR (KVM_GUESTDBG_ENABLE OR KVM_GUESTDBG_USE_HW_BP),
               debugreg := fold (set_debugreg t) [0..nb t - 1] ((debugreg dbg)(7 := 0x0600))\<rparr>
      else dbg)"

text \<open>
  The argument of the ioctl is a local variable whose \<^verbatim>\<open>control\<close> field alone is set before the
  call. \<^verbatim>\<open>run_on_cpu\<close> runs the ioctl in the thread of the CPU and waits for it.
\<close>

definition kvm_update_guest_debug :: "qstate \<Rightarrow> int \<Rightarrow> u32 \<Rightarrow> int \<times> qstate" where
  "kvm_update_guest_debug s c reinject_trap =
     (let d0 = (ext_stack_dbg (ext s))\<lparr>control := reinject_trap\<rparr>;
          d1 = (if singlestep_enabled (cpu_of s c)
                then d0\<lparr>control := control d0 OR (KVM_GUESTDBG_ENABLE OR KVM_GUESTDBG_SINGLESTEP)\<rparr>
                else d0);
          d2 = kvm_arch_update_guest_debug_cpu s c d1
      in (ext_set_guest_debug (ext s) (nr_ioctls s) c,
          s\<lparr>guest_debug := (guest_debug s)(c := d2), nr_ioctls := Suc (nr_ioctls s)\<rparr>))"

section \<open>Insertion and removal\<close>

definition kvm_insert_breakpoint_cpu :: "qstate \<Rightarrow> int \<Rightarrow> u64 \<Rightarrow> int \<Rightarrow> int \<Rightarrow> int \<times> qstate" where
  "kvm_insert_breakpoint_cpu s c addr len type =
     (let (err, s) = (if type = GDB_BREAKPOINT_SW then (0, s)
                      else kvm_arch_insert_hw_breakpoint_cpu s c addr len type)
      in if err \<noteq> 0 then (err, s) else kvm_update_guest_debug s c 0)"

definition kvm_remove_breakpoint_cpu :: "qstate \<Rightarrow> int \<Rightarrow> u64 \<Rightarrow> int \<Rightarrow> int \<Rightarrow> int \<times> qstate" where
  "kvm_remove_breakpoint_cpu s c addr len type =
     (let (err, s) = (if type = GDB_BREAKPOINT_SW then (0, s)
                      else kvm_arch_remove_hw_breakpoint_cpu s c addr len type)
      in if err \<noteq> 0 then (err, s) else kvm_update_guest_debug s c 0)"

definition kvm_remove_all_breakpoints_cpu :: "qstate \<Rightarrow> int \<Rightarrow> qstate" where
  "kvm_remove_all_breakpoints_cpu s c =
     snd (kvm_update_guest_debug (kvm_arch_remove_all_hw_breakpoints_cpu s c) c 0)"

section \<open>The contract of a breakpoint table\<close>

locale bp_table =
  fixes addrs :: "'t \<Rightarrow> u64 set"
    and wf :: "'t \<Rightarrow> bool"
    and ins :: "u64 \<Rightarrow> 't \<Rightarrow> int \<times> 't"
    and rem :: "u64 \<Rightarrow> 't \<Rightarrow> int \<times> 't"
    and cap :: nat
  assumes finite_addrs: "wf t \<Longrightarrow> finite (addrs t)"
    and card_addrs: "wf t \<Longrightarrow> card (addrs t) \<le> cap"
    and ins_fresh: "wf t \<Longrightarrow> a \<notin> addrs t \<Longrightarrow> card (addrs t) < cap \<Longrightarrow>
      \<exists>t'. ins a t = (0, t') \<and> wf t' \<and> addrs t' = insert a (addrs t)"
    and ins_dup: "wf t \<Longrightarrow> a \<in> addrs t \<Longrightarrow> ins a t = (- EEXIST, t)"
    and ins_full: "wf t \<Longrightarrow> a \<notin> addrs t \<Longrightarrow> card (addrs t) = cap \<Longrightarrow> ins a t = (- ENOBUFS, t)"
    and rem_in: "wf t \<Longrightarrow> a \<in> addrs t \<Longrightarrow>
      \<exists>t'. rem a t = (0, t') \<and> wf t' \<and> addrs t' = addrs t - {a}"
    and rem_out: "wf t \<Longrightarrow> a \<notin> addrs t \<Longrightarrow> rem a t = (- ENOENT, t)"
begin

text \<open>Insertion keeps the table well-formed and never loses an address.\<close>

lemma ins_wf: "wf t \<Longrightarrow> ins a t = (e, t') \<Longrightarrow> wf t' \<and> addrs t \<subseteq> addrs t' \<and> addrs t' \<subseteq> insert a (addrs t)"
proof -
  assume wf: "wf t" and eq: "ins a t = (e, t')"
  consider (dup) "a \<in> addrs t" | (full) "a \<notin> addrs t" "card (addrs t) = cap"
    | (fresh) "a \<notin> addrs t" "card (addrs t) < cap"
    using card_addrs [OF wf] by linarith
  then show ?thesis
  proof cases
    case dup
    then show ?thesis using eq ins_dup [OF wf] wf by auto
  next
    case full
    then show ?thesis using eq ins_full [OF wf] wf by auto
  next
    case fresh
    then show ?thesis using eq ins_fresh [OF wf fresh] by auto
  qed
qed

lemma rem_wf: "wf t \<Longrightarrow> rem a t = (e, t') \<Longrightarrow> wf t' \<and> addrs t' = addrs t - {a} \<and> e \<in> {0, - ENOENT}"
  using rem_in [of t a] rem_out [of t a] by (cases "a \<in> addrs t") auto

text \<open>Removing what was just inserted gives back the set of addresses.\<close>

lemma ins_rem:
  assumes "wf t" and "a \<notin> addrs t" and "card (addrs t) < cap"
  shows "\<exists>t1 t2. ins a t = (0, t1) \<and> rem a t1 = (0, t2) \<and> wf t2 \<and> addrs t2 = addrs t"
proof -
  obtain t1 where t1: "ins a t = (0, t1)" "wf t1" "addrs t1 = insert a (addrs t)"
    using ins_fresh [OF assms] by auto
  then obtain t2 where "rem a t1 = (0, t2)" "wf t2" "addrs t2 = addrs t1 - {a}"
    using rem_in [of t1 a] by auto
  then show ?thesis
    using t1 assms(2) by auto
qed

end

section \<open>The tables of the model\<close>

definition hw_addrs :: "qstate \<Rightarrow> int \<Rightarrow> u64 set" where
  "hw_addrs s c = bp_addr ` bp (hw_breakpoint s c) ` {0..<nb (hw_breakpoint s c)}"

definition hw_wf :: "qstate \<Rightarrow> int \<Rightarrow> bool" where
  "hw_wf s c \<longleftrightarrow> 0 \<le> nb (hw_breakpoint s c) \<and> nb (hw_breakpoint s c) \<le> 4 \<and>
     (\<forall>n\<in>{0..<nb (hw_breakpoint s c)}. bp_len (bp (hw_breakpoint s c) n) = 1 \<and>
        bp_type (bp (hw_breakpoint s c) n) = GDB_BREAKPOINT_HW) \<and>
     inj_on (\<lambda>n. bp_addr (bp (hw_breakpoint s c) n)) {0..<nb (hw_breakpoint s c)}"

lemma card_hw_addrs:
  assumes "hw_wf s c"
  shows "int (card (hw_addrs s c)) = nb (hw_breakpoint s c)"
proof -
  have "card (hw_addrs s c) = card {0..<nb (hw_breakpoint s c)}"
    unfolding hw_addrs_def image_image
    by (rule card_image) (use assms in \<open>simp add: hw_wf_def\<close>)
  then show ?thesis using assms by (simp add: hw_wf_def)
qed

lemma find_hw_None:
  assumes "hw_wf s c" and "a \<notin> hw_addrs s c"
  shows "find_hw_breakpoint_cpu s c a 1 GDB_BREAKPOINT_HW = - 1"
proof -
  have "List.find (\<lambda>n. bp_addr (bp (hw_breakpoint s c) n) = a \<and>
      bp_type (bp (hw_breakpoint s c) n) = GDB_BREAKPOINT_HW \<and>
      (bp_len (bp (hw_breakpoint s c) n) = 1 \<or> (1::int) = - 1)) [0..nb (hw_breakpoint s c) - 1] = None"
    using assms(2) by (auto simp: find_None_iff hw_addrs_def)
  then show ?thesis by (simp add: find_hw_breakpoint_cpu_def)
qed

lemma find_hw_Some:
  assumes "hw_wf s c" and "a \<in> hw_addrs s c"
  shows "\<exists>n\<in>{0..<nb (hw_breakpoint s c)}.
    find_hw_breakpoint_cpu s c a 1 GDB_BREAKPOINT_HW = n \<and> bp_addr (bp (hw_breakpoint s c) n) = a"
proof -
  let ?t = "hw_breakpoint s c"
  let ?P = "\<lambda>n. bp_addr (bp ?t n) = a \<and> bp_type (bp ?t n) = GDB_BREAKPOINT_HW \<and>
      (bp_len (bp ?t n) = 1 \<or> (1::int) = - 1)"
  from assms obtain m where "m \<in> {0..<nb ?t}" "?P m"
    by (auto simp: hw_addrs_def hw_wf_def)
  then have "List.find ?P [0..nb ?t - 1] \<noteq> None"
    by (auto simp: find_None_iff)
  then obtain n where n: "List.find ?P [0..nb ?t - 1] = Some n" by auto
  then have "n \<in> set [0..nb ?t - 1]" "?P n"
    by (auto simp: find_Some_iff)
  then show ?thesis
    using n by (auto simp: find_hw_breakpoint_cpu_def)
qed

lemma hw_insert_fresh:
  assumes wf: "hw_wf s c" and a: "a \<notin> hw_addrs s c" and lt: "card (hw_addrs s c) < 4"
  shows "\<exists>s'. kvm_arch_insert_hw_breakpoint_cpu s c a 1 GDB_BREAKPOINT_HW = (0, s') \<and>
    hw_wf s' c \<and> hw_addrs s' c = insert a (hw_addrs s c)"
proof -
  let ?t = "hw_breakpoint s c"
  define s' where "s' = s\<lparr>hw_breakpoint := (hw_breakpoint s)
    (c := ?t\<lparr>bp := (bp ?t)(nb ?t := \<lparr>bp_addr = a, bp_len = 1, bp_type = GDB_BREAKPOINT_HW\<rparr>),
             nb := nb ?t + 1\<rparr>)\<rparr>"
  have nb: "0 \<le> nb ?t" "nb ?t < 4"
    using card_hw_addrs [OF wf] lt wf by (auto simp: hw_wf_def)
  have range: "{0..<nb ?t + 1} = insert (nb ?t) {0..<nb ?t}"
    using nb by auto
  have "hw_addrs s' c = insert a (hw_addrs s c)"
    by (auto simp: hw_addrs_def s'_def range image_image)
  moreover have "hw_wf s' c"
    using wf nb a by (auto simp: hw_wf_def s'_def hw_addrs_def inj_on_def image_iff)
  moreover have "kvm_arch_insert_hw_breakpoint_cpu s c a 1 GDB_BREAKPOINT_HW = (0, s')"
    using nb find_hw_None [OF wf a] by (simp add: kvm_arch_insert_hw_breakpoint_cpu_def s'_def Let_def)
  ultimately show ?thesis by blast
qed

lemma hw_remove_in:
  assumes wf: "hw_wf s c" and a: "a \<in> hw_addrs s c"
  shows "\<exists>s'. kvm_arch_remove_hw_breakpoint_cpu s c a 1 GDB_BREAKPOINT_HW = (0, s') \<and>
    hw_wf s' c \<and> hw_addrs s' c = hw_addrs s c - {a}"
proof -
  let ?t = "hw_breakpoint s c"
  let ?m = "nb ?t - 1"
  obtain n where n: "n \<in> {0..<nb ?t}" "find_hw_breakpoint_cpu s c a 1 GDB_BREAKPOINT_HW = n"
      "bp_addr (bp ?t n) = a"
    using find_hw_Some [OF wf a] by auto
  define s' where "s' = s\<lparr>hw_breakpoint := (hw_breakpoint s)
    (c := ?t\<lparr>nb := ?m, bp := (bp ?t)(n := bp ?t ?m)\<rparr>)\<rparr>"
  have inj: "inj_on (\<lambda>n. bp_addr (bp ?t n)) {0..<nb ?t}"
    using wf by (simp add: hw_wf_def)
  have m: "?m \<in> {0..<nb ?t}" using n(1) by auto
  have "hw_addrs s' c = hw_addrs s c - {a}"
  proof
    show "hw_addrs s' c \<subseteq> hw_addrs s c - {a}"
      using n m inj_onD [OF inj _ n(1)] inj_onD [OF inj _ n(1) m]
      by (auto simp: hw_addrs_def s'_def)
    show "hw_addrs s c - {a} \<subseteq> hw_addrs s' c"
    proof
      fix x
      assume "x \<in> hw_addrs s c - {a}"
      then obtain k where "k \<in> {0..<nb ?t}" "x = bp_addr (bp ?t k)" "x \<noteq> a"
        by (auto simp: hw_addrs_def)
      then have k: "k \<in> {0..<nb ?t}" "x = bp_addr (bp ?t k)" "k \<noteq> n"
        using n(3) by auto
      show "x \<in> hw_addrs s' c"
      proof (cases "k = ?m")
        case True
        then have "n \<in> {0..<?m}" using k n(1) by auto
        then show ?thesis using True k(2) by (force simp: hw_addrs_def s'_def)
      next
        case False
        then have "k \<in> {0..<?m}" using k(1) by auto
        then show ?thesis using k by (force simp: hw_addrs_def s'_def)
      qed
    qed
  qed
  moreover have "inj_on (\<lambda>k. bp_addr (((bp ?t)(n := bp ?t ?m)) k)) {0..<?m}"
  proof (rule inj_onI)
    fix x y
    assume xy: "x \<in> {0..<?m}" "y \<in> {0..<?m}"
      "bp_addr (((bp ?t)(n := bp ?t ?m)) x) = bp_addr (((bp ?t)(n := bp ?t ?m)) y)"
    have "(if x = n then ?m else x) = (if y = n then ?m else y)"
      by (rule inj_onD [OF inj]) (use xy m in auto)
    then show "x = y" using xy by (auto split: if_splits)
  qed
  then have "hw_wf s' c"
    using wf n m by (auto simp: hw_wf_def s'_def)
  moreover have "kvm_arch_remove_hw_breakpoint_cpu s c a 1 GDB_BREAKPOINT_HW = (0, s')"
    using n by (simp add: kvm_arch_remove_hw_breakpoint_cpu_def s'_def Let_def)
  ultimately show ?thesis by blast
qed

interpretation hwbp: bp_table "\<lambda>s. hw_addrs s c" "\<lambda>s. hw_wf s c"
  "\<lambda>a s. kvm_arch_insert_hw_breakpoint_cpu s c a 1 GDB_BREAKPOINT_HW"
  "\<lambda>a s. kvm_arch_remove_hw_breakpoint_cpu s c a 1 GDB_BREAKPOINT_HW" 4 for c :: int
proof (unfold_locales, goal_cases)
  case (1 s)
  show ?case by (simp add: hw_addrs_def)
next
  case (2 s)
  then show ?case using card_hw_addrs [of s c] by (simp add: hw_wf_def)
next
  case (3 s a)
  then show ?case by (rule hw_insert_fresh)
next
  case (4 s a)
  then show ?case
    using find_hw_Some [of s c a] by (auto simp: kvm_arch_insert_hw_breakpoint_cpu_def Let_def)
next
  case (5 s a)
  then show ?case
    using find_hw_None [of s c a] card_hw_addrs [of s c]
    by (simp add: kvm_arch_insert_hw_breakpoint_cpu_def Let_def)
next
  case (6 s a)
  then show ?case by (rule hw_remove_in)
next
  case (7 s a)
  then show ?case
    using find_hw_None [of s c a] by (simp add: kvm_arch_remove_hw_breakpoint_cpu_def Let_def)
qed


section \<open>What the operations leave alone\<close>

text \<open>\<open>kvm_frame s s'\<close>: the two states differ in breakpoint tables and debug registers only.\<close>

definition kvm_frame :: "qstate \<Rightarrow> qstate \<Rightarrow> bool" where
  "kvm_frame s s' \<longleftrightarrow>
     sched s' = sched s \<and> vmi_info s' = vmi_info s \<and> infos s' = infos s \<and> cpus s' = cpus s \<and>
     cpu_of s' = cpu_of s \<and> vcpu_regs s' = vcpu_regs s \<and> warn_once s' = warn_once s \<and>
     iothread_locked s' = iothread_locked s \<and> current_cpu s' = current_cpu s \<and>
     vm_running s' = vm_running s \<and> phys_page s' = phys_page s \<and> pmem s' = pmem s \<and> ext s' = ext s"

lemma kvm_frame_refl [simp]: "kvm_frame s s"
  by (simp add: kvm_frame_def)

lemma kvm_frame_simps:
  assumes "kvm_frame s s'"
  shows "sched s' = sched s" and "vmi_info s' = vmi_info s" and "infos s' = infos s"
    and "cpus s' = cpus s" and "cpu_of s' = cpu_of s" and "vcpu_regs s' = vcpu_regs s"
    and "warn_once s' = warn_once s" and "iothread_locked s' = iothread_locked s"
    and "current_cpu s' = current_cpu s" and "vm_running s' = vm_running s"
    and "phys_page s' = phys_page s" and "pmem s' = pmem s" and "ext s' = ext s"
  using assms by (auto simp: kvm_frame_def)

lemma kvm_update_guest_debug_frame:
  "kvm_update_guest_debug s c r = (e, s') \<Longrightarrow> kvm_frame s s' \<and> hw_breakpoint s' = hw_breakpoint s"
  by (auto simp: kvm_update_guest_debug_def kvm_frame_def Let_def)

lemma kvm_insert_breakpoint_cpu_frame:
  assumes "kvm_insert_breakpoint_cpu s c a l t = (e, s')"
  shows "kvm_frame s s'" and "d \<noteq> c \<Longrightarrow> hw_breakpoint s' d = hw_breakpoint s d"
  using assms
  by (auto simp: kvm_insert_breakpoint_cpu_def kvm_arch_insert_hw_breakpoint_cpu_def
      kvm_update_guest_debug_def kvm_frame_def Let_def split: if_splits prod.splits)

lemma kvm_remove_breakpoint_cpu_frame:
  assumes "kvm_remove_breakpoint_cpu s c a l t = (e, s')"
  shows "kvm_frame s s'" and "d \<noteq> c \<Longrightarrow> hw_breakpoint s' d = hw_breakpoint s d"
  using assms
  by (auto simp: kvm_remove_breakpoint_cpu_def kvm_arch_remove_hw_breakpoint_cpu_def
      kvm_update_guest_debug_def kvm_frame_def Let_def split: if_splits prod.splits)

lemma kvm_remove_all_breakpoints_cpu_frame:
  "kvm_frame s (kvm_remove_all_breakpoints_cpu s c)"
  "d \<noteq> c \<Longrightarrow> hw_breakpoint (kvm_remove_all_breakpoints_cpu s c) d = hw_breakpoint s d"
  "hw_addrs (kvm_remove_all_breakpoints_cpu s c) c = {}"
  "hw_wf (kvm_remove_all_breakpoints_cpu s c) c"
  by (auto simp: kvm_remove_all_breakpoints_cpu_def kvm_arch_remove_all_hw_breakpoints_cpu_def
      kvm_update_guest_debug_def kvm_frame_def Let_def hw_addrs_def hw_wf_def)

lemma hw_cong:
  assumes "hw_breakpoint s' c = hw_breakpoint s c"
  shows "hw_wf s' c = hw_wf s c" and "hw_addrs s' c = hw_addrs s c"
  using assms by (simp_all add: hw_wf_def hw_addrs_def)

lemma kvm_insert_breakpoint_cpu_table:
  assumes "hw_wf s c" and "kvm_insert_breakpoint_cpu s c a 1 GDB_BREAKPOINT_HW = (e, s')"
  shows "hw_wf s' c" and "hw_addrs s' c \<subseteq> insert a (hw_addrs s c)" and "hw_addrs s c \<subseteq> hw_addrs s' c"
proof -
  obtain e1 s1 where ins: "kvm_arch_insert_hw_breakpoint_cpu s c a 1 GDB_BREAKPOINT_HW = (e1, s1)"
    by fastforce
  have "hw_breakpoint s' c = hw_breakpoint s1 c"
    using assms(2) ins
    by (auto simp: kvm_insert_breakpoint_cpu_def GDB_BREAKPOINT_HW_def GDB_BREAKPOINT_SW_def
        dest!: kvm_update_guest_debug_frame split: if_splits)
  then show "hw_wf s' c" and "hw_addrs s' c \<subseteq> insert a (hw_addrs s c)" and "hw_addrs s c \<subseteq> hw_addrs s' c"
    using hwbp.ins_wf [OF assms(1) ins] hw_cong [of s' c s1] by auto
qed

lemma kvm_remove_breakpoint_cpu_table:
  assumes "hw_wf s c" and "kvm_remove_breakpoint_cpu s c a 1 GDB_BREAKPOINT_HW = (e, s')"
  shows "hw_wf s' c" and "hw_addrs s' c = hw_addrs s c - {a}"
proof -
  obtain e1 s1 where rem: "kvm_arch_remove_hw_breakpoint_cpu s c a 1 GDB_BREAKPOINT_HW = (e1, s1)"
    by fastforce
  have "hw_breakpoint s' c = hw_breakpoint s1 c"
    using assms(2) rem
    by (auto simp: kvm_remove_breakpoint_cpu_def GDB_BREAKPOINT_HW_def GDB_BREAKPOINT_SW_def
        dest!: kvm_update_guest_debug_frame split: if_splits)
  then show "hw_wf s' c" and "hw_addrs s' c = hw_addrs s c - {a}"
    using hwbp.rem_wf [OF assms(1) rem] hw_cong [of s' c s1] by auto
qed

text \<open>Where the ioctl succeeds, insertion succeeds exactly on a fresh address in a table with room.\<close>

lemma kvm_insert_breakpoint_cpu_result:
  assumes "hw_wf s c" and "\<And>n. ext_set_guest_debug (ext s) n c = 0"
  shows "fst (kvm_insert_breakpoint_cpu s c a 1 GDB_BREAKPOINT_HW) =
    (if a \<in> hw_addrs s c then - EEXIST else if card (hw_addrs s c) = 4 then - ENOBUFS else 0)"
proof -
  have lt: "card (hw_addrs s c) < 4" if "card (hw_addrs s c) \<noteq> 4"
    using that hwbp.card_addrs [OF assms(1)] by simp
  have "ext s1 = ext s" if "kvm_arch_insert_hw_breakpoint_cpu s c a 1 GDB_BREAKPOINT_HW = (0, s1)" for s1
    using that by (auto simp: kvm_arch_insert_hw_breakpoint_cpu_def Let_def errno_defs split: if_splits)
  then show ?thesis
    using hwbp.ins_dup [OF assms(1), of a] hwbp.ins_full [OF assms(1), of a]
      hwbp.ins_fresh [OF assms(1) _ lt, of a] assms(2)
    by (auto simp: kvm_insert_breakpoint_cpu_def kvm_update_guest_debug_def Let_def errno_defs
        GDB_BREAKPOINT_HW_def GDB_BREAKPOINT_SW_def)
qed

lemma kvm_remove_breakpoint_cpu_result:
  assumes "hw_wf s c" and "\<And>n. ext_set_guest_debug (ext s) n c = 0"
  shows "fst (kvm_remove_breakpoint_cpu s c a 1 GDB_BREAKPOINT_HW) = (if a \<in> hw_addrs s c then 0 else - ENOENT)"
proof -
  have "ext s1 = ext s" if "kvm_arch_remove_hw_breakpoint_cpu s c a 1 GDB_BREAKPOINT_HW = (0, s1)" for s1
    using that by (auto simp: kvm_arch_remove_hw_breakpoint_cpu_def Let_def errno_defs split: if_splits)
  then show ?thesis
    using hwbp.rem_in [OF assms(1), of a] hwbp.rem_out [OF assms(1), of a] assms(2)
    by (auto simp: kvm_remove_breakpoint_cpu_def kvm_update_guest_debug_def Let_def errno_defs
        GDB_BREAKPOINT_HW_def GDB_BREAKPOINT_SW_def)
qed

section \<open>Properties\<close>

text \<open>
  C39: on a CPU whose table holds fewer than four addresses, inserting a hardware breakpoint at a
  new address and removing it again both succeed and give back the same set of addresses.
\<close>

theorem insert_remove_round_trip:
  assumes "hw_wf s c" and "a \<notin> hw_addrs s c" and "card (hw_addrs s c) < 4"
  shows "\<exists>t u. kvm_arch_insert_hw_breakpoint_cpu s c a 1 GDB_BREAKPOINT_HW = (0, t) \<and>
    kvm_arch_remove_hw_breakpoint_cpu t c a 1 GDB_BREAKPOINT_HW = (0, u) \<and>
    hw_wf u c \<and> hw_addrs u c = hw_addrs s c"
  by (rule hwbp.ins_rem [OF assms])

theorem insert_remove_round_trip_witness:
  "\<exists>t u. kvm_arch_insert_hw_breakpoint_cpu example_boot 1 0x1000 1 GDB_BREAKPOINT_HW = (0, t) \<and>
    kvm_arch_remove_hw_breakpoint_cpu t 1 0x1000 1 GDB_BREAKPOINT_HW = (0, u) \<and>
    hw_wf u 1 \<and> hw_addrs u 1 = hw_addrs example_boot 1"
  by (rule insert_remove_round_trip) (simp_all add: hw_wf_def hw_addrs_def boot_defs)

end
