(* ===== verification/Byte_Memory.thy ===== *)
theory Byte_Memory
  imports Qcs_Prelude
begin

text \<open>
  Memory as bytes, shared by the guest-memory accessors and the store buffers: the little-endian
  image of an integer, and reading and writing a run of bytes at an address.
\<close>

section \<open>Integers in memory\<close>

definition le_bytes :: "nat \<Rightarrow> u64 \<Rightarrow> u8 list" where
  "le_bytes n v = map (\<lambda>i. ucast (drop_bit (8 * i) v)) [0..<n]"

fun of_le_bytes :: "u8 list \<Rightarrow> u64" where
  "of_le_bytes [] = 0"
| "of_le_bytes (b # bs) = ucast b OR push_bit 8 (of_le_bytes bs)"

lemma length_le_bytes [simp]: "length (le_bytes n v) = n"
  by (simp add: le_bytes_def)

lemma bit_of_le_bytes:
  "bit (of_le_bytes bs) n \<longleftrightarrow> n < 64 \<and> n div 8 < length bs \<and> bit (bs ! (n div 8)) (n mod 8)"
proof (induction bs arbitrary: n)
  case Nil
  then show ?case by simp
next
  case (Cons b bs)
  show ?case
  proof (cases "n < 8")
    case True
    then show ?thesis by (simp add: bit_simps)
  next
    case False
    then have n: "n div 8 = Suc ((n - 8) div 8)" "n mod 8 = (n - 8) mod 8"
      by (simp_all add: div_if [of n] mod_if [of n])
    have "\<not> bit b n"
      using False by (simp add: bit_word.rep_eq)
    then show ?thesis
      using False n by (auto simp: bit_simps Cons.IH)
  qed
qed

lemma of_le_bytes_le_bytes: "of_le_bytes (le_bytes 8 v) = v"
proof (rule bit_word_eqI)
  fix n
  assume n: "n < LENGTH(64)"
  then have "n div 8 < 8" and "8 * (n div 8) + n mod 8 = n"
    by simp_all
  then show "bit (of_le_bytes (le_bytes 8 v)) n = bit v n"
    using n by (simp add: bit_of_le_bytes le_bytes_def bit_simps)
qed

section \<open>Byte memories\<close>

definition write_bytes :: "u64 \<Rightarrow> u8 list \<Rightarrow> (u64 \<Rightarrow> u8) \<Rightarrow> u64 \<Rightarrow> u8" where
  "write_bytes p bs m = (\<lambda>a. if unat (a - p) < length bs then bs ! unat (a - p) else m a)"

definition read_bytes :: "u64 \<Rightarrow> nat \<Rightarrow> (u64 \<Rightarrow> u8) \<Rightarrow> u8 list" where
  "read_bytes p n m = map (\<lambda>i. m (p + of_nat i)) [0..<n]"

lemma length_read_bytes [simp]: "length (read_bytes p n m) = n"
  by (simp add: read_bytes_def)

lemma read_write_bytes:
  assumes "length bs < 2 ^ 64"
  shows "read_bytes p (length bs) (write_bytes p bs m) = bs"
proof (rule nth_equalityI)
  fix i
  assume "i < length (read_bytes p (length bs) (write_bytes p bs m))"
  then have i: "i < length bs" by simp
  then have "unat (of_nat i :: u64) = i"
    using assms by (simp add: unat_of_nat)
  then show "read_bytes p (length bs) (write_bytes p bs m) ! i = bs ! i"
    using i by (simp add: read_bytes_def write_bytes_def)
qed simp

lemma read_write_le: "n \<le> 8 \<Longrightarrow> read_bytes p n (write_bytes p (le_bytes n v) m) = le_bytes n v"
  using read_write_bytes [of "le_bytes n v" p m] by simp

lemma write_bytes_Nil [simp]: "write_bytes p [] m = m"
  by (simp add: write_bytes_def)

text \<open>What lies outside the run is untouched, and a later run over the same bytes hides an earlier one.\<close>

lemma write_bytes_outside: "length bs \<le> unat (a - p) \<Longrightarrow> write_bytes p bs m a = m a"
  by (simp add: write_bytes_def)

lemma write_bytes_over: "length bs = length cs \<Longrightarrow> write_bytes p cs (write_bytes p bs m) = write_bytes p cs m"
  by (auto simp: write_bytes_def)

lemma write_bytes_cong: "m a = m' a \<Longrightarrow> write_bytes p bs m a = write_bytes p bs m' a"
  by (simp add: write_bytes_def)

text \<open>The low bytes of a value are its image under the mask of the access size.\<close>

lemma of_le_bytes_mask: "of_le_bytes (le_bytes n v) = v AND mask (8 * n)"
proof (rule bit_word_eqI)
  fix i
  assume i: "i < LENGTH(64)"
  have e: "8 * (i div 8) + i mod 8 = i" by simp
  have "i div 8 < n \<longleftrightarrow> i < 8 * n" by (auto simp: div_less_iff_less_mult mult.commute)
  then show "bit (of_le_bytes (le_bytes n v)) i = bit (v AND mask (8 * n)) i"
    using i e by (auto simp: bit_of_le_bytes le_bytes_def bit_simps)
qed

lemma of_le_bytes_append_mask:
  "length bs = n \<Longrightarrow> of_le_bytes (bs @ cs) AND mask (8 * n) = of_le_bytes bs"
proof (rule bit_word_eqI)
  fix i
  assume n: "length bs = n" and i: "i < LENGTH(64)"
  have "i div 8 < n \<longleftrightarrow> i < 8 * n" by (auto simp: div_less_iff_less_mult mult.commute)
  then show "bit (of_le_bytes (bs @ cs) AND mask (8 * n)) i = bit (of_le_bytes bs) i"
    using i n by (auto simp: bit_of_le_bytes bit_simps nth_append)
qed

lemma le_bytes_mask: "n \<le> k \<Longrightarrow> le_bytes n (v AND mask (8 * k)) = le_bytes n v"
proof (rule nth_equalityI)
  fix i
  assume k: "n \<le> k" and "i < length (le_bytes n (v AND mask (8 * k)))"
  then have i: "i < n" by simp
  have "ucast (drop_bit (8 * i) (v AND mask (8 * k))) = (ucast (drop_bit (8 * i) v) :: u8)"
    using i k by (intro bit_word_eqI) (auto simp: bit_simps dest: bit_imp_le_length)
  then show "le_bytes n (v AND mask (8 * k)) ! i = le_bytes n v ! i"
    using i by (simp add: le_bytes_def)
qed simp

end
