(* ===== verification/Guest_Memory.thy ===== *)
theory Guest_Memory
  imports Guest_State Byte_Memory
begin

text \<open>
  Access to guest-virtual memory from the hypervisor: \<^verbatim>\<open>cpu_memory_rw_debug\<close> of
  \<^verbatim>\<open>softmmu/physmem.c\<close>, which walks the pages of the range.
\<close>

section \<open>cpu_memory_rw_debug\<close>

definition TARGET_PAGE_MASK :: u64 where "TARGET_PAGE_MASK = NOT 0xfff"
definition TARGET_PAGE_SIZE :: u64 where "TARGET_PAGE_SIZE = 0x1000"

lemma page_rest_pos: "0 < unat ((addr AND TARGET_PAGE_MASK) + TARGET_PAGE_SIZE - addr)"
proof -
  have "(addr AND TARGET_PAGE_MASK) + (addr AND 0xfff) = (addr AND TARGET_PAGE_MASK) OR (addr AND 0xfff)"
    by (rule disjunctive_add) (auto simp: TARGET_PAGE_MASK_def bit_simps)
  also have "\<dots> = addr"
    by (rule bit_word_eqI) (auto simp: TARGET_PAGE_MASK_def bit_simps)
  finally have "addr AND 0xfff = addr - (addr AND TARGET_PAGE_MASK)"
    by (metis add_diff_cancel_left')
  then have "(addr AND TARGET_PAGE_MASK) + TARGET_PAGE_SIZE - addr = TARGET_PAGE_SIZE - (addr AND 0xfff)"
    by simp
  moreover have "addr AND 0xfff \<le> 0xfff"
    by (rule word_and_le1)
  then have "addr AND 0xfff \<noteq> 0x1000"
    by auto
  then have "TARGET_PAGE_SIZE - (addr AND 0xfff) \<noteq> 0"
    by (auto simp: TARGET_PAGE_SIZE_def)
  ultimately show ?thesis
    by (metis unat_gt_0)
qed

text \<open>
  \<open>buf\<close> is the caller's buffer of \<^verbatim>\<open>len\<close> bytes. \<open>rw_page\<close> is the body of the loop: the
  transfer up to the end of the current page, or \<open>None\<close> where the page is not mapped or the
  transfer is not \<^verbatim>\<open>MEMTX_OK\<close>.
\<close>

definition rw_page ::
  "qstate \<Rightarrow> int \<Rightarrow> u64 \<Rightarrow> u8 list \<Rightarrow> bool \<Rightarrow> (nat \<times> u8 list \<times> qstate) option" where
  "rw_page s c addr buf is_write =
     (let page = addr AND TARGET_PAGE_MASK;
          phys = phys_page s c page;
          l = min (unat (page + TARGET_PAGE_SIZE - addr)) (length buf);
          pa = phys + (addr AND NOT TARGET_PAGE_MASK)
      in if phys = - 1 \<or> \<not> ext_as_ok (ext s) pa l then None
         else if is_write
         then Some (l, take l buf, s\<lparr>pmem := write_bytes pa (take l buf) (pmem s)\<rparr>)
         else Some (l, read_bytes pa l (pmem s), s))"

lemma rw_page_SomeD:
  assumes "rw_page s c addr buf w = Some (l, chunk, s1)"
  shows "buf \<noteq> [] \<Longrightarrow> 0 < l" and "l \<le> length buf" and "length chunk = l"
    and "s1 = s\<lparr>pmem := pmem s1\<rparr>" and "\<not> w \<Longrightarrow> s1 = s"
  using assms page_rest_pos [of addr] by (auto simp: rw_page_def Let_def split: if_splits)

text \<open>
  The loop: the C return value, the buffer afterwards and the state. A failing page leaves what
  the earlier pages transferred.
\<close>

function cpu_memory_rw_debug ::
  "qstate \<Rightarrow> int \<Rightarrow> u64 \<Rightarrow> u8 list \<Rightarrow> bool \<Rightarrow> int \<times> u8 list \<times> qstate" where
  "cpu_memory_rw_debug s c addr buf is_write =
     (if buf = [] then (0, [], s)
      else case rw_page s c addr buf is_write of
             None \<Rightarrow> (- 1, buf, s)
           | Some (l, chunk, s1) \<Rightarrow>
               (case cpu_memory_rw_debug s1 c (addr + of_nat l) (drop l buf) is_write of
                  (r, rest, s2) \<Rightarrow> (r, chunk @ rest, s2)))"
  by pat_completeness auto
termination
  by (relation "measure (\<lambda>(s, c, addr, buf, is_write). length buf)")
    (auto dest: rw_page_SomeD(1))

declare cpu_memory_rw_debug.simps [simp del]

lemma cpu_memory_rw_debug_Nil [simp]: "cpu_memory_rw_debug s c addr [] w = (0, [], s)"
  by (simp add: cpu_memory_rw_debug.simps)

text \<open>Only guest-physical memory changes, and a read changes nothing.\<close>

lemma cpu_memory_rw_debug_frame:
  "cpu_memory_rw_debug s c addr buf w = (r, out, s') \<Longrightarrow>
     s' = s\<lparr>pmem := pmem s'\<rparr> \<and> (\<not> w \<longrightarrow> s' = s) \<and> length out = length buf"
proof (induction s c addr buf w arbitrary: r out s' rule: cpu_memory_rw_debug.induct)
  case (1 s c addr buf w)
  show ?case
  proof (cases "buf = [] \<or> rw_page s c addr buf w = None")
    case True
    with "1.prems" show ?thesis
      by (auto simp: cpu_memory_rw_debug.simps [of s c addr buf w] split: if_splits)
  next
    case False
    then obtain l chunk s1 where page: "rw_page s c addr buf w = Some (l, chunk, s1)"
      by auto
    obtain r2 rest s2
      where rec: "cpu_memory_rw_debug s1 c (addr + of_nat l) (drop l buf) w = (r2, rest, s2)"
      by (metis prod_cases3)
    have IH: "s2 = s1\<lparr>pmem := pmem s2\<rparr> \<and> (\<not> w \<longrightarrow> s2 = s1) \<and> length rest = length buf - l"
      using "1.IH" [OF _ page _ _ rec] False by simp
    have out: "out = chunk @ rest" "s' = s2"
      using "1.prems" False page rec
      by (simp_all add: cpu_memory_rw_debug.simps [of s c addr buf w])
    have "s2 = s\<lparr>pmem := pmem s2\<rparr>"
      using IH rw_page_SomeD(4) [OF page] by (metis qstate.surjective qstate.update_convs(15))
    then show ?thesis
      using IH out rw_page_SomeD(2,3,5) [OF page] by auto
  qed
qed

text \<open>A read depends on the page tables and on memory alone.\<close>

lemma cpu_memory_read_cong:
  assumes "phys_page t = phys_page s" and "pmem t = pmem s" and "ext t = ext s"
  shows "fst (cpu_memory_rw_debug t c addr buf False) = fst (cpu_memory_rw_debug s c addr buf False) \<and>
    fst (snd (cpu_memory_rw_debug t c addr buf False)) = fst (snd (cpu_memory_rw_debug s c addr buf False))"
proof (induction "length buf" arbitrary: addr buf rule: less_induct)
  case less
  show ?case
  proof (cases "buf = [] \<or> rw_page s c addr buf False = None")
    case True
    moreover have "rw_page t c addr buf False = None" if "rw_page s c addr buf False = None"
      using that assms by (auto simp: rw_page_def Let_def split: if_splits)
    ultimately show ?thesis
      by (auto simp: cpu_memory_rw_debug.simps [of _ c addr buf])
  next
    case False
    then obtain l chunk where page: "rw_page s c addr buf False = Some (l, chunk, s)"
      using rw_page_SomeD(5) [of s c addr buf False] by fastforce
    then have page': "rw_page t c addr buf False = Some (l, chunk, t)"
      using assms by (auto simp: rw_page_def Let_def split: if_splits)
    have "length (drop l buf) < length buf"
      using rw_page_SomeD(1) [OF page] False by simp
    then show ?thesis
      using less [of "drop l buf" "addr + of_nat l"] False page page'
      by (auto simp: cpu_memory_rw_debug.simps [of _ c addr buf] split: prod.splits)
  qed
qed

text \<open>The access stays on one page: a single transfer.\<close>

lemma cpu_memory_rw_debug_one_page:
  assumes "buf \<noteq> []" and "length buf \<le> unat ((addr AND TARGET_PAGE_MASK) + TARGET_PAGE_SIZE - addr)"
    and "phys_page s c (addr AND TARGET_PAGE_MASK) \<noteq> - 1"
    and "pa = phys_page s c (addr AND TARGET_PAGE_MASK) + (addr AND NOT TARGET_PAGE_MASK)"
    and "ext_as_ok (ext s) pa (length buf)"
  shows "cpu_memory_rw_debug s c addr buf w =
    (0, if w then buf else read_bytes pa (length buf) (pmem s),
     if w then s\<lparr>pmem := write_bytes pa buf (pmem s)\<rparr> else s)"
proof -
  have "rw_page s c addr buf w = Some (length buf,
      if w then buf else read_bytes pa (length buf) (pmem s),
      if w then s\<lparr>pmem := write_bytes pa buf (pmem s)\<rparr> else s)"
    using assms by (simp add: rw_page_def Let_def min_absorb2)
  then show ?thesis
    using assms(1) by (simp add: cpu_memory_rw_debug.simps [of s c addr buf w])
qed

end
