(* ===== verification/Cpu_State.thy ===== *)
theory Cpu_State
  imports Guest_State
begin

text \<open>
  The per-CPU state of the schedule (\<^verbatim>\<open>qcsched/state.c\<close>), the event counters
  (\<^verbatim>\<open>qcsched/cookie.c\<close>) and QEMU's big lock, which every handler takes around its work.
\<close>

section \<open>The iothread lock\<close>

definition qemu_mutex_lock_iothread :: "qstate \<Rightarrow> qstate res" where
  "qemu_mutex_lock_iothread s =
     res_bind (g_assert (\<not> iothread_locked s) s) (\<lambda>s. Ok (s\<lparr>iothread_locked := True\<rparr>))"

definition qemu_mutex_unlock_iothread :: "qstate \<Rightarrow> qstate res" where
  "qemu_mutex_unlock_iothread s =
     res_bind (g_assert (iothread_locked s) s) (\<lambda>s. Ok (s\<lparr>iothread_locked := False\<rparr>))"

section \<open>CPU states\<close>

definition qcsched_cpu_transition ::
  "qstate \<Rightarrow> int \<Rightarrow> qcsched_cpu_state \<Rightarrow> qcsched_cpu_state \<Rightarrow> (bool \<times> qstate) res" where
  "qcsched_cpu_transition s c from to =
     res_bind (g_assert (iothread_locked s) s) (\<lambda>s.
       if cpu_state (sched s) c \<noteq> from then Ok (False, s)
       else Ok (True, upd_sched (\<lambda>q. q\<lparr>cpu_state := (cpu_state q)(c := to)\<rparr>) s))"

definition cpu_is_used :: "qstate \<Rightarrow> int \<Rightarrow> bool" where
  "cpu_is_used s c \<longleftrightarrow> 1 \<le> c \<and> c < 1 + nr_cpus (sched s)"

definition qcsched_check_cpu_state :: "qstate \<Rightarrow> int \<Rightarrow> qcsched_cpu_state \<Rightarrow> bool" where
  "qcsched_check_cpu_state s c st \<longleftrightarrow> cpu_state (sched s) c \<ge> st"

definition qcsched_check_all_cpu_state :: "qstate \<Rightarrow> qcsched_cpu_state \<Rightarrow> bool res" where
  "qcsched_check_all_cpu_state s st =
     res_bind (g_assert (iothread_locked s) s) (\<lambda>s.
       Ok (list_all (\<lambda>c. cpu_is_used s c \<longrightarrow> qcsched_check_cpu_state s c st) (cpus s)))"

definition qcsched_set_cpu_state :: "qstate \<Rightarrow> int \<Rightarrow> qcsched_cpu_state \<Rightarrow> qstate" where
  "qcsched_set_cpu_state s c st = upd_sched (\<lambda>q. q\<lparr>cpu_state := (cpu_state q)(c := st)\<rparr>) s"

lemma check_cpu_state_simps:
  "qcsched_check_cpu_state s c qcsched_cpu_ready \<longleftrightarrow> cpu_state (sched s) c \<noteq> qcsched_cpu_idle"
  "qcsched_check_cpu_state s c qcsched_cpu_activated \<longleftrightarrow>
     cpu_state (sched s) c = qcsched_cpu_activated \<or> cpu_state (sched s) c = qcsched_cpu_deactivated"
  "qcsched_check_cpu_state s c qcsched_cpu_deactivated \<longleftrightarrow>
     cpu_state (sched s) c = qcsched_cpu_deactivated"
  by (cases "cpu_state (sched s) c"; simp add: qcsched_check_cpu_state_def cpu_state_order)+

section \<open>Cookies\<close>

datatype qcsched_cookie = cookie_hcall | cookie_breakpoint | cookie_timer

fun qcsched_eat_cookie :: "qstate \<Rightarrow> int \<Rightarrow> qcsched_cookie \<Rightarrow> qstate" where
  "qcsched_eat_cookie s c cookie_hcall = upd_cpu c (\<lambda>p. p\<lparr>hcall_cookie := hcall_cookie p + 1\<rparr>) s"
| "qcsched_eat_cookie s c cookie_breakpoint =
     upd_cpu c (\<lambda>p. p\<lparr>breakpoint_cookie := breakpoint_cookie p + 1\<rparr>) s"
| "qcsched_eat_cookie s c cookie_timer = upd_cpu c (\<lambda>p. p\<lparr>timer_cookie := timer_cookie p + 1\<rparr>) s"

end
