(* ===== verification/Vmi.thy ===== *)
theory Vmi
  imports Guest_Memory Cpu_State
begin

text \<open>
  Virtual machine introspection (\<^verbatim>\<open>qcsched/vmi.c\<close>): the addresses the guest kernel announces,
  the task running on a CPU and the context it runs in, read out of the guest's per-CPU memory, the
  test whether that task may go on, and the comparison of lock sets. The functions here are those of
  the default build, in which the lock hints are empty functions.
\<close>

section \<open>Hints\<close>

definition VMI_TRAMPOLINE :: u64 where "VMI_TRAMPOLINE = 0x939aef52"
definition VMI_HOOK :: u64 where "VMI_HOOK = 0x30f4b16"
definition VMI_CURRENT_TASK :: u64 where "VMI_CURRENT_TASK = 0xfb40de5"
definition VMI__PER_CPU_OFFSET0 :: u64 where "VMI__PER_CPU_OFFSET0 = 0x4a157131"
definition VMI__SSB_DO_EMULATE :: u64 where "VMI__SSB_DO_EMULATE = 0xdb17901"
definition VMI__PREEMPT_COUNT :: u64 where "VMI__PREEMPT_COUNT = 0x3259b990"
definition VMI_LOCK_ACQUIRE :: u64 where "VMI_LOCK_ACQUIRE = 0x7867ffae"
definition VMI_LOCK_RELEASE :: u64 where "VMI_LOCK_RELEASE = 0x8287b1f7"
definition VMI_LOCKDEP_WHITELIST :: u64 where "VMI_LOCKDEP_WHITELIST = 0x34825dc2"
definition MAX_WHITELIST_ITEM :: int where "MAX_WHITELIST_ITEM = 16"

lemmas vmi_type_defs = VMI_TRAMPOLINE_def VMI_HOOK_def VMI_CURRENT_TASK_def VMI__PER_CPU_OFFSET0_def
  VMI__SSB_DO_EMULATE_def VMI__PREEMPT_COUNT_def VMI_LOCK_ACQUIRE_def VMI_LOCK_RELEASE_def
  VMI_LOCKDEP_WHITELIST_def

definition qcsched_vmi_hint_trampoline :: "qstate \<Rightarrow> u64 \<Rightarrow> int \<Rightarrow> qstate" where
  "qcsched_vmi_hint_trampoline s addr index =
     upd_vmi (\<lambda>v. v\<lparr>trampoline_addr := (trampoline_addr v)(index := addr)\<rparr>) s"

definition qcsched_vmi_hint_hook :: "qstate \<Rightarrow> u64 \<Rightarrow> qstate" where
  "qcsched_vmi_hint_hook s addr = upd_vmi (\<lambda>v. v\<lparr>hook_addr := addr\<rparr>) s"

definition qcsched_vmi_hint_per_cpu_offset :: "qstate \<Rightarrow> int \<Rightarrow> u64 \<Rightarrow> qstate" where
  "qcsched_vmi_hint_per_cpu_offset s index addr =
     upd_vmi (\<lambda>v. v\<lparr>per_cpu_offset := (per_cpu_offset v)(index := addr)\<rparr>) s"

definition qcsched_vmi_hint_current_task :: "qstate \<Rightarrow> u64 \<Rightarrow> qstate" where
  "qcsched_vmi_hint_current_task s addr = upd_vmi (\<lambda>v. v\<lparr>vmi_current_task := addr\<rparr>) s"

definition qcsched_vmi_hint_ssb_do_emulate :: "qstate \<Rightarrow> u64 \<Rightarrow> qstate" where
  "qcsched_vmi_hint_ssb_do_emulate s addr = upd_vmi (\<lambda>v. v\<lparr>vmi_ssb_do_emulate := addr\<rparr>) s"

definition qcsched_vmi_hint_preempt_count :: "qstate \<Rightarrow> u64 \<Rightarrow> qstate" where
  "qcsched_vmi_hint_preempt_count s addr = upd_vmi (\<lambda>v. v\<lparr>vmi_preempt_count := addr\<rparr>) s"

text \<open>The bodies of the build without \<^verbatim>\<open>CONFIG_QCSCHED_TRAMPOLINE\<close>.\<close>

definition qcsched_vmi_lock_acquire :: "qstate \<Rightarrow> int \<Rightarrow> u64 \<Rightarrow> int \<Rightarrow> int \<Rightarrow> u64 \<Rightarrow> qstate" where
  "qcsched_vmi_lock_acquire s c lockdep_adr try_lock rd ip = s"

definition qcsched_vmi_lock_release :: "qstate \<Rightarrow> int \<Rightarrow> u64 \<Rightarrow> qstate" where
  "qcsched_vmi_lock_release s c lockdep_adr = s"

definition qcsched_vmi_lockdep_whitelist :: "qstate \<Rightarrow> u64 \<Rightarrow> qstate" where
  "qcsched_vmi_lockdep_whitelist s addr =
     (let wl = lockdep_whitelist (vmi_info s) in
      if wl_count wl \<ge> MAX_WHITELIST_ITEM then s
      else upd_vmi (\<lambda>v. v\<lparr>lockdep_whitelist :=
             wl\<lparr>wl_count := wl_count wl + 1, whitelist := (whitelist wl)(wl_count wl := addr)\<rparr>\<rparr>) s)"

text \<open>The bits of the address argument encode how a lock is taken.\<close>

definition qcsched_vmi_hint :: "qstate \<Rightarrow> int \<Rightarrow> u64 \<Rightarrow> u64 \<Rightarrow> u64 \<Rightarrow> u64 \<times> qstate" where
  "qcsched_vmi_hint s c type addr ip =
     (if VMI_TRAMPOLINE \<le> type \<and> type \<le> VMI_TRAMPOLINE + 1
      then (0, qcsched_vmi_hint_trampoline s addr (int_of_u64 (type - VMI_TRAMPOLINE)))
      else if type = VMI_HOOK then (0, qcsched_vmi_hint_hook s addr)
      else if VMI__PER_CPU_OFFSET0 \<le> type \<and> type \<le> VMI__PER_CPU_OFFSET0 + 63
      then (0, qcsched_vmi_hint_per_cpu_offset s (int_of_u64 (type - VMI__PER_CPU_OFFSET0)) addr)
      else if type = VMI_CURRENT_TASK then (0, qcsched_vmi_hint_current_task s addr)
      else if type = VMI__SSB_DO_EMULATE then (0, qcsched_vmi_hint_ssb_do_emulate s addr)
      else if type = VMI__PREEMPT_COUNT then (0, qcsched_vmi_hint_preempt_count s addr)
      else if type = VMI_LOCK_ACQUIRE
      then (0, qcsched_vmi_lock_acquire s c (addr AND NOT 7) (uint (drop_bit 2 addr AND 1)) (uint (addr AND 3)) ip)
      else if type = VMI_LOCK_RELEASE then (0, qcsched_vmi_lock_release s c addr)
      else if type = VMI_LOCKDEP_WHITELIST then (0, qcsched_vmi_lockdep_whitelist s addr)
      else (ulong_of_int (- EINVAL), s))"

definition qcsched_vmi_lock_info_reset :: "qstate \<Rightarrow> int \<Rightarrow> qstate" where
  "qcsched_vmi_lock_info_reset s c =
     upd_vmi (\<lambda>v. v\<lparr>lock_info := (lock_info v)(c := (lock_info v c)\<lparr>lock_count := 0\<rparr>)\<rparr>) s"

section \<open>The context a CPU runs in\<close>

definition qcsched_vmi_preempt_count :: "qstate \<Rightarrow> int \<Rightarrow> u32 res" where
  "qcsched_vmi_preempt_count s c =
     (let off = per_cpu_offset (vmi_info s) c in
      if off = 0 then Ok 0
      else let pcpu_ptr = off + vmi_preempt_count (vmi_info s);
               (r, buf, _) = cpu_memory_rw_debug s c pcpu_ptr (replicate 4 0) False
           in if r \<noteq> 0 then Fault Assert_fail else Ok (ucast (of_le_bytes buf)))"

text \<open>\<^verbatim>\<open>__IRQ_MASK\<close> and the fields of \<^verbatim>\<open>preempt_count\<close>.\<close>

definition IRQ_MASK :: "nat \<Rightarrow> u64" where "IRQ_MASK x = push_bit x 1 - 1"
definition SOFTIRQ_SHIFT :: nat where "SOFTIRQ_SHIFT = 0 + 8"
definition HARDIRQ_SHIFT :: nat where "HARDIRQ_SHIFT = SOFTIRQ_SHIFT + 8"
definition NMI_SHIFT :: nat where "NMI_SHIFT = HARDIRQ_SHIFT + 4"
definition SOFTIRQ_MASK :: u64 where "SOFTIRQ_MASK = push_bit SOFTIRQ_SHIFT (IRQ_MASK 8)"
definition HARDIRQ_MASK :: u64 where "HARDIRQ_MASK = push_bit HARDIRQ_SHIFT (IRQ_MASK 4)"
definition NMI_MASK :: u64 where "NMI_MASK = push_bit NMI_SHIFT (IRQ_MASK 4)"
definition SOFTIRQ_OFFSET :: u64 where "SOFTIRQ_OFFSET = push_bit SOFTIRQ_SHIFT 1"

definition in_task_count :: "u64 \<Rightarrow> bool" where
  "in_task_count pc =
     (let in_nmi = pc AND NMI_MASK \<noteq> 0;
          in_hardirq = pc AND HARDIRQ_MASK \<noteq> 0;
          in_serving_softirq = (pc AND SOFTIRQ_MASK) AND SOFTIRQ_OFFSET \<noteq> 0
      in \<not> (in_nmi \<or> in_hardirq \<or> in_serving_softirq))"

definition qcsched_vmi_in_task :: "qstate \<Rightarrow> int \<Rightarrow> bool res" where
  "qcsched_vmi_in_task s c =
     res_bind (qcsched_vmi_preempt_count s c) (\<lambda>pc. Ok (in_task_count (ucast pc)))"

definition current_task :: "qstate \<Rightarrow> int \<Rightarrow> u64 res" where
  "current_task s c =
     (let off = per_cpu_offset (vmi_info s) c in
      if off = 0 then Ok 0
      else let pcpu_ptr = off + vmi_current_task (vmi_info s);
               (r, buf, _) = cpu_memory_rw_debug s c pcpu_ptr (replicate 8 0) False
           in if r \<noteq> 0 then Fault Assert_fail else Ok (of_le_bytes buf))"

definition qcsched_vmi_task :: "qstate \<Rightarrow> int \<Rightarrow> vmi_task res" where
  "qcsched_vmi_task s c = res_bind (current_task s c) (\<lambda>t. Ok \<lparr>task_struct = t\<rparr>)"

definition vmi_same_task :: "vmi_task \<Rightarrow> vmi_task \<Rightarrow> bool" where
  "vmi_same_task t0 t1 \<longleftrightarrow> task_struct t0 = task_struct t1"

definition vmi_scheduling_subject :: "qstate \<Rightarrow> vmi_task \<Rightarrow> bool" where
  "vmi_scheduling_subject s t \<longleftrightarrow> list_ex (\<lambda>i. vmi_same_task t (e_task (entry s i))) [0..tot s - 1]"

definition qcsched_vmi_running_context_being_scheduled :: "qstate \<Rightarrow> int \<Rightarrow> bool \<Rightarrow> bool res" where
  "qcsched_vmi_running_context_being_scheduled s c task_only =
     res_bind (qcsched_vmi_task s c) (\<lambda>running.
       let ret = vmi_scheduling_subject s running in
       if task_only \<and> ret then qcsched_vmi_in_task s c else Ok ret)"

text \<open>
  \<^verbatim>\<open>&sched.entries[sched.current]\<close> is read when the running task is one of the schedule.
\<close>

definition qcsched_vmi_can_progress :: "qstate \<Rightarrow> int \<Rightarrow> bool res" where
  "qcsched_vmi_can_progress s c =
     res_bind (qcsched_vmi_task s c) (\<lambda>running.
       if \<not> vmi_scheduling_subject s running then Ok True
       else let cur = current (sched s) in
         if \<not> (0 \<le> cur \<and> cur < MAX_SCHEDPOINTS) then Fault Out_of_bounds
         else Ok (vmi_same_task running (e_task (entry s cur)) \<or> tot s = cur \<or>
                  qcsched_force_wakeup (cpu_of s c) \<or> \<not> activated (sched s)))"

text \<open>What is read depends on the announced addresses, the page tables and memory.\<close>

lemma vmi_read_cong:
  assumes "vmi_info t = vmi_info s" and "phys_page t = phys_page s" and "pmem t = pmem s" and "ext t = ext s"
  shows "qcsched_vmi_preempt_count t c = qcsched_vmi_preempt_count s c"
    and "qcsched_vmi_in_task t c = qcsched_vmi_in_task s c" and "qcsched_vmi_task t c = qcsched_vmi_task s c"
proof -
  note rd = cpu_memory_read_cong [OF assms(2-4)]
  show pc: "qcsched_vmi_preempt_count t c = qcsched_vmi_preempt_count s c"
    using rd [of c "per_cpu_offset (vmi_info s) c + vmi_preempt_count (vmi_info s)" "replicate 4 0"]
    by (auto simp: qcsched_vmi_preempt_count_def assms(1) Let_def split: prod.splits)
  then show "qcsched_vmi_in_task t c = qcsched_vmi_in_task s c"
    by (simp add: qcsched_vmi_in_task_def)
  show "qcsched_vmi_task t c = qcsched_vmi_task s c"
    using rd [of c "per_cpu_offset (vmi_info s) c + vmi_current_task (vmi_info s)" "replicate 8 0"]
    by (auto simp: qcsched_vmi_task_def current_task_def assms(1) Let_def split: prod.splits)
qed

section \<open>Lock contention\<close>

definition lock_contending :: "qcsched_vmi_lock \<Rightarrow> qcsched_vmi_lock \<Rightarrow> bool" where
  "lock_contending l0 l1 \<longleftrightarrow>
     (if lockdep_addr l0 \<noteq> lockdep_addr l1 then False
      else if trylock l0 \<noteq> 0 \<or> trylock l1 \<noteq> 0 then False
      else if lock_read l0 \<noteq> 0 \<and> lock_read l1 \<noteq> 0 then False
      else True)"

definition vmi_lock_info_contending :: "qcsched_vmi_lock_info \<Rightarrow> qcsched_vmi_lock_info \<Rightarrow> bool" where
  "vmi_lock_info_contending li0 li1 \<longleftrightarrow>
     list_ex (\<lambda>i. list_ex (\<lambda>j. lock_contending (acquired li0 i) (acquired li1 j)) [0..lock_count li1 - 1])
       [0..lock_count li0 - 1]"

definition qcsched_vmi_lock_contending :: "qstate \<Rightarrow> int \<Rightarrow> int \<Rightarrow> bool" where
  "qcsched_vmi_lock_contending s c0 c1 \<longleftrightarrow>
     (if c0 = c1 then False
      else vmi_lock_info_contending (lock_info (vmi_info s) c0) (lock_info (vmi_info s) c1))"

end
