(* ===== verification/Window.thy ===== *)
theory Window
  imports Kvm_Breakpoint Vmi
begin

text \<open>
  The scheduling window (\<^verbatim>\<open>qcsched/window.c\<close>): which scheduling points of a CPU carry a
  hardware breakpoint, how the window follows the focus of the schedule, and the footprint each
  scheduling point leaves. A function that takes a \<^verbatim>\<open>window\<close> pointer takes the index of the window.
\<close>

section \<open>Looking up entries\<close>

definition schedpoint_window_full :: "qcsched_schedpoint_window \<Rightarrow> bool" where
  "schedpoint_window_full w \<longleftrightarrow> w_activated w = SCHEDPOINT_WINDOW_SIZE"

definition schedpoint_window_empty :: "qcsched_schedpoint_window \<Rightarrow> bool" where
  "schedpoint_window_empty w \<longleftrightarrow> w_activated w = 0"

text \<open>\<open>None\<close> in place of a CPU is the null pointer: any CPU.\<close>

definition lookup_entry_by_order :: "qstate \<Rightarrow> int option \<Rightarrow> int \<Rightarrow> int option" where
  "lookup_entry_by_order s cpu from =
     (if from = END_OF_SCHEDPOINT_WINDOW then None
      else List.find (\<lambda>i. (case cpu of None \<Rightarrow> True | Some c \<Rightarrow> e_cpu (entry s i) = c) \<and>
                          e_footprint (entry s i) \<noteq> footprint_missed) [from..tot s - 1])"

definition lookup_entry_by_address :: "qstate \<Rightarrow> int \<Rightarrow> u64 \<Rightarrow> int option" where
  "lookup_entry_by_address s c inst =
     (if w_from (window s c) = END_OF_SCHEDPOINT_WINDOW then None
      else List.find (\<lambda>i. e_cpu (entry s i) = c \<and> e_addr (entry s i) = inst)
             [w_from (window s c)..tot s - 1])"

definition next_valid_order_of :: "qstate \<Rightarrow> int option \<Rightarrow> int \<Rightarrow> int" where
  "next_valid_order_of s cpu order =
     (case lookup_entry_by_order s cpu (order + 1) of
        None \<Rightarrow> tot s
      | Some i \<Rightarrow> e_order (entry s i))"

definition qemu_get_cpu :: "qstate \<Rightarrow> int \<Rightarrow> int option" where
  "qemu_get_cpu s index = (if index \<in> set (cpus s) then Some index else None)"

section \<open>Expanding\<close>

definition qcsched_window_activate_entry :: "qstate \<Rightarrow> int \<Rightarrow> int \<Rightarrow> int \<Rightarrow> qstate res" where
  "qcsched_window_activate_entry s c w e =
     res_bind (c_assert (\<not> schedpoint_window_full (window s w)) s) (\<lambda>s.
       if e_addr (entry s e) = QCSCHED_DUMMY_BREAKPOINT then Ok s
       else if installed (entry s e) then Ok s
       else let (err, s) = kvm_insert_breakpoint_cpu s c (e_addr (entry s e)) 1 GDB_BREAKPOINT_HW in
         res_bind (c_assert (err = 0) s) (\<lambda>s.
           Ok (upd_window w (\<lambda>x. x\<lparr>w_activated := w_activated x + 1\<rparr>)
                (upd_entry e (\<lambda>x. x\<lparr>installed := True\<rparr>) s))))"

definition order_or_end :: "qstate \<Rightarrow> int option \<Rightarrow> int" where
  "order_or_end s e = (case e of Some i \<Rightarrow> e_order (entry s i) | None \<Rightarrow> END_OF_SCHEDPOINT_WINDOW)"

definition qcsched_window_expand_window_1 :: "qstate \<Rightarrow> int \<Rightarrow> int \<Rightarrow> qstate res" where
  "qcsched_window_expand_window_1 s c w =
     (case lookup_entry_by_order s (Some c) (w_until (window s w)) of
        None \<Rightarrow> Ok s
      | Some e \<Rightarrow>
          let s = (if schedpoint_window_empty (window s w)
                   then upd_window w (\<lambda>x. x\<lparr>w_from := e_order (entry s e)\<rparr>) s else s)
          in res_bind (qcsched_window_activate_entry s c w e) (\<lambda>s.
               let next = lookup_entry_by_order s (Some c) (e_order (entry s e) + 1) in
               Ok (upd_window w (\<lambda>x. x\<lparr>w_until := order_or_end s next\<rparr>) s)))"

fun qcsched_window_expand_window_n :: "qstate \<Rightarrow> int \<Rightarrow> nat \<Rightarrow> qstate res" where
  "qcsched_window_expand_window_n s c 0 = Ok s"
| "qcsched_window_expand_window_n s c (Suc n) =
     (if schedpoint_window_full (window s c) then Ok s
      else res_bind (qcsched_window_expand_window_1 s c c)
             (\<lambda>s. qcsched_window_expand_window_n s c n))"

definition qcsched_window_expand_window :: "qstate \<Rightarrow> int \<Rightarrow> qstate res" where
  "qcsched_window_expand_window s c =
     qcsched_window_expand_window_n s c (nat SCHEDPOINT_WINDOW_SIZE)"

section \<open>Footprints\<close>

definition qcsched_window_leave_footprint_at ::
  "qstate \<Rightarrow> int \<Rightarrow> qcschedpoint_footprint \<Rightarrow> int \<Rightarrow> qstate" where
  "qcsched_window_leave_footprint_at s c fp order =
     (if order \<ge> tot s then s
      else if e_cpu (entry s order) \<noteq> c then s
      else let fp = (if e_addr (entry s order) = QCSCHED_DUMMY_BREAKPOINT then footprint_hit else fp)
           in upd_entry order (\<lambda>x. x\<lparr>schedpoint := (schedpoint x)\<lparr>sp_footprint := fp\<rparr>\<rparr>) s)"

definition qcsched_window_leave_footprint ::
  "qstate \<Rightarrow> int \<Rightarrow> qcschedpoint_footprint \<Rightarrow> qstate" where
  "qcsched_window_leave_footprint s c fp =
     qcsched_window_leave_footprint_at s c fp (w_from (window s c))"

section \<open>Shrinking\<close>

definition qcsched_window_deactivate_entry_remote :: "qstate \<Rightarrow> int \<Rightarrow> int \<Rightarrow> qstate" where
  "qcsched_window_deactivate_entry_remote s w e =
     (if w_left_behind (window s w) = END_OF_SCHEDPOINT_WINDOW \<or>
         w_left_behind (window s w) > e_order (entry s e)
      then upd_window w (\<lambda>x. x\<lparr>w_left_behind := e_order (entry s e)\<rparr>) s
      else s)"

definition qcsched_window_deactivate_entry_local :: "qstate \<Rightarrow> int \<Rightarrow> int \<Rightarrow> int \<Rightarrow> qstate res" where
  "qcsched_window_deactivate_entry_local s c w e =
     res_bind (c_assert (c = current_cpu s) s) (\<lambda>s.
       let (err, s) = kvm_remove_breakpoint_cpu s c (e_addr (entry s e)) 1 GDB_BREAKPOINT_HW in
       res_bind (c_assert (err = 0 \<or> err = - ENOENT) s) (\<lambda>s.
         Ok (upd_window w (\<lambda>x. x\<lparr>w_activated := w_activated x - 1\<rparr>)
              (upd_entry e (\<lambda>x. x\<lparr>installed := False\<rparr>) s))))"

definition qcsched_window_deactivate_entry :: "qstate \<Rightarrow> int \<Rightarrow> int \<Rightarrow> int \<Rightarrow> qstate res" where
  "qcsched_window_deactivate_entry s c w e =
     res_bind (c_assert (w_cpu (window s w) = e_cpu (entry s e)) s) (\<lambda>s.
       if \<not> installed (entry s e) then Ok s
       else res_bind (c_assert (\<not> schedpoint_window_empty (window s w)) s) (\<lambda>s.
         if c \<noteq> e_cpu (entry s e) then Ok (qcsched_window_deactivate_entry_remote s w e)
         else qcsched_window_deactivate_entry_local s c w e))"

definition do_shrink_entry :: "qstate \<Rightarrow> int \<Rightarrow> int \<Rightarrow> int \<Rightarrow> qstate res" where
  "do_shrink_entry s c w e =
     res_bind (if installed (entry s e) then qcsched_window_deactivate_entry s c w e else Ok s) (\<lambda>s.
       if e_order (entry s e) < w_from (window s w)
       then c_assert (w_from (window s w) \<le> w_until (window s w)) s
       else
         let cpu0 = qemu_get_cpu s (w_cpu (window s w));
             next = lookup_entry_by_order s cpu0 (w_from (window s w) + 1);
             s = upd_window w (\<lambda>x. x\<lparr>w_from := order_or_end s next\<rparr>) s
         in if w_from (window s w) > w_until (window s w)
            then Ok (upd_window w (\<lambda>x. x\<lparr>w_until := w_from x\<rparr>) s)
            else Ok s)"

definition qcsched_window_shrink_before_entry :: "qstate \<Rightarrow> int \<Rightarrow> int \<Rightarrow> int \<Rightarrow> qstate res" where
  "qcsched_window_shrink_before_entry s c w until =
     res_bind (foreach [w_from (window s w)..e_order (entry s until) - 1]
        (\<lambda>i s. if e_cpu (entry s i) \<noteq> w_cpu (window s w) then Ok s else do_shrink_entry s c w i) s)
       (\<lambda>s. c_assert (e_order (entry s until) = w_from (window s w)) s)"

definition qcsched_window_shrink_entry :: "qstate \<Rightarrow> int \<Rightarrow> int \<Rightarrow> int \<Rightarrow> qstate res" where
  "qcsched_window_shrink_entry s c w e =
     res_bind (c_assert (w_cpu (window s w) = e_cpu (entry s e)) s) (\<lambda>s.
       res_bind (if e_order (entry s e) > w_from (window s w)
                 then qcsched_window_shrink_before_entry s c w e else Ok s) (\<lambda>s.
         do_shrink_entry s c w e))"

definition qcsched_window_shrink_window_1 :: "qstate \<Rightarrow> int \<Rightarrow> int \<Rightarrow> qstate res" where
  "qcsched_window_shrink_window_1 s c w =
     (case lookup_entry_by_order s (Some c) (w_from (window s w)) of
        None \<Rightarrow> Ok s
      | Some e \<Rightarrow> qcsched_window_shrink_entry s c w e)"

fun qcsched_window_shrink_window_n :: "qstate \<Rightarrow> int \<Rightarrow> nat \<Rightarrow> qstate res" where
  "qcsched_window_shrink_window_n s c 0 = Ok s"
| "qcsched_window_shrink_window_n s c (Suc n) =
     (if schedpoint_window_empty (window s c) then Ok s
      else res_bind (qcsched_window_shrink_window_1 s c c)
             (\<lambda>s. qcsched_window_shrink_window_n s c n))"

definition qcsched_window_shrink_window :: "qstate \<Rightarrow> int \<Rightarrow> qstate res" where
  "qcsched_window_shrink_window s c = qcsched_window_shrink_window_n s c 1"

section \<open>Closing\<close>

definition close_one :: "int \<Rightarrow> int \<Rightarrow> qstate \<Rightarrow> qstate res" where
  "close_one c order s =
     (if e_cpu (entry s order) \<noteq> c then Ok s
      else if e_footprint (entry s order) \<noteq> footprint_preserved then Ok s
      else if installed (entry s order)
      then let s = qcsched_window_leave_footprint_at s c footprint_missed order
           in qcsched_window_deactivate_entry s c c order
      else Ok (qcsched_window_leave_footprint_at s c footprint_not_addressed order))"

definition qcsched_window_close_window :: "qstate \<Rightarrow> int \<Rightarrow> qstate res" where
  "qcsched_window_close_window s c =
     res_bind (foreach [0..tot s - 1] (close_one c) s) (\<lambda>s.
       let s = upd_window c (\<lambda>x. x\<lparr>w_from := END_OF_SCHEDPOINT_WINDOW,
                 w_until := END_OF_SCHEDPOINT_WINDOW, w_left_behind := END_OF_SCHEDPOINT_WINDOW,
                 w_total := 0\<rparr>) s
       in c_assert (w_activated (window s c) = 0) s)"

definition qcsched_window_window_closed :: "qcsched_schedpoint_window \<Rightarrow> bool" where
  "qcsched_window_window_closed w \<longleftrightarrow> w_total w = 0"

section \<open>Missed and stale scheduling points\<close>

text \<open>Closing the window and pushing the debug registers, as three error paths do.\<close>

definition close_and_update :: "qstate \<Rightarrow> int \<Rightarrow> qstate res" where
  "close_and_update s c =
     res_bind (qcsched_window_close_window s c) (\<lambda>s.
       let (err, s) = kvm_update_guest_debug s c 0 in c_assert (err = 0) s)"

definition prune_one :: "int \<Rightarrow> int \<Rightarrow> qstate \<Rightarrow> qstate res" where
  "prune_one c order s =
     (if e_footprint (entry s order) = footprint_missed then Ok s
      else
        let w0 = e_cpu (entry s order) in
        if qcsched_window_window_closed (window s w0) then Ok s
        else let s = qcsched_window_leave_footprint_at s c footprint_missed (e_order (entry s order))
             in qcsched_window_shrink_entry s c w0 order)"

definition qcsched_window_prune_missed_schedpoint :: "qstate \<Rightarrow> int \<Rightarrow> qstate res" where
  "qcsched_window_prune_missed_schedpoint s c =
     (let hit = lookup_entry_by_address s c (RIP s c);
          legit = lookup_entry_by_order s (Some c) (w_from (window s c))
      in case (legit, hit) of
           (Some l, Some h) \<Rightarrow>
             res_bind (c_assert (e_order (entry s h) \<ge> w_from (window s c)) s) (\<lambda>s.
               if h = l then Ok s
               else foreach [e_order (entry s l)..e_order (entry s h) - 1] (prune_one c) s)
         | _ \<Rightarrow> close_and_update s c)"

text \<open>
  The loop of \<^verbatim>\<open>qcsched_window_cleanup_left_schedpoint\<close> jumps from one entry of the CPU to
  the next. The fuel is one more than the number of entries.
\<close>

fun cleanup_loop :: "nat \<Rightarrow> qstate \<Rightarrow> int \<Rightarrow> int \<Rightarrow> qstate res" where
  "cleanup_loop 0 s c i = Fault Diverges"
| "cleanup_loop (Suc fuel) s c i =
     (if \<not> i < w_from (window s c) then Ok s
      else case lookup_entry_by_order s (Some c) i of
             None \<Rightarrow> Ok s
           | Some e \<Rightarrow>
               res_bind (if installed (entry s e)
                         then qcsched_window_deactivate_entry
                                (qcsched_window_leave_footprint_at s c footprint_dropped i) c c e
                         else Ok s) (\<lambda>s.
                 case lookup_entry_by_order s (Some c) (e_order (entry s e) + 1) of
                   None \<Rightarrow> Ok s
                 | Some n \<Rightarrow> cleanup_loop fuel s c (e_order (entry s n))))"

definition qcsched_window_cleanup_left_schedpoint :: "qstate \<Rightarrow> int \<Rightarrow> qstate res" where
  "qcsched_window_cleanup_left_schedpoint s c =
     res_bind (c_assert (iothread_locked s) s) (\<lambda>s.
       res_bind (cleanup_loop (nat MAX_SCHEDPOINTS + 2) s c (w_left_behind (window s c))) (\<lambda>s.
         Ok (upd_window c (\<lambda>x. x\<lparr>w_left_behind := END_OF_SCHEDPOINT_WINDOW\<rparr>) s)))"

definition qcsched_window_sync :: "qstate \<Rightarrow> int \<Rightarrow> qstate" where
  "qcsched_window_sync s c =
     (if current (sched s) \<le> w_from (window s c) then s
      else
        let left_behind = w_from (window s c);
            from = order_or_end s (lookup_entry_by_order s (Some c) (current (sched s)))
        in upd_window c (\<lambda>x. x\<lparr>w_from := from,
             w_until := (if w_until x < from then from else w_until x),
             w_left_behind := (if left_behind < w_left_behind x then left_behind else w_left_behind x)\<rparr>) s)"

definition qcsched_window_hit_stale_schedpoint :: "qstate \<Rightarrow> int \<Rightarrow> bool" where
  "qcsched_window_hit_stale_schedpoint s c =
     (case lookup_entry_by_address s c (RIP s c) of
        None \<Rightarrow> True
      | Some hit \<Rightarrow> e_order (entry s hit) < w_from (window s c))"

section \<open>The focus of the schedule\<close>

definition forward_focus :: "qstate \<Rightarrow> int \<Rightarrow> qstate res" where
  "forward_focus s step =
     (let cur = current (sched s) + step in
      if \<not> (0 \<le> cur \<and> cur < MAX_SCHEDPOINTS) then Fault Out_of_bounds
      else Ok (upd_sched (\<lambda>q. q\<lparr>current := cur\<rparr>) s))"

definition get_next_cpu :: "qstate \<Rightarrow> int \<Rightarrow> int option \<Rightarrow> int option" where
  "get_next_cpu s c entry_opt =
     (case entry_opt of
        None \<Rightarrow> List.find (\<lambda>d. d \<noteq> c \<and> cpu_state (sched s) d = qcsched_cpu_activated) (cpus s)
      | Some e \<Rightarrow> qemu_get_cpu s (e_cpu (entry s e)))"

definition hand_over_baton_from :: "qstate \<Rightarrow> int \<Rightarrow> int \<Rightarrow> qstate res" where
  "hand_over_baton_from s c order =
     (let next_cpu = get_next_cpu s c None;
          next_order = next_valid_order_of s next_cpu order
      in forward_focus s (next_order - current (sched s)))"

definition qcsched_window_lock_contending :: "qstate \<Rightarrow> int \<Rightarrow> bool" where
  "qcsched_window_lock_contending s c =
     (let e = lookup_entry_by_order s None (current (sched s) + 1) in
      if \<not> qcsched_check_cpu_state s c qcsched_cpu_activated \<or>
         qcsched_check_cpu_state s c qcsched_cpu_deactivated then False
      else case get_next_cpu s c e of
             None \<Rightarrow> False
           | Some d \<Rightarrow> if d = c then False else qcsched_vmi_lock_contending s c d)"

definition qcsched_window_consecutive_schedpoint :: "qstate \<Rightarrow> int \<Rightarrow> int \<Rightarrow> bool" where
  "qcsched_window_consecutive_schedpoint s c current_order =
     (let next_order = next_valid_order_of s None current_order in
      if next_order = tot s then True
      else case lookup_entry_by_order s None next_order of
             None \<Rightarrow> True
           | Some e \<Rightarrow> e_cpu (entry s e) = c)"

end
