(* ===== verification/Sched_Inv.thy ===== *)
theory Sched_Inv
  imports Window
begin

text \<open>
  The invariant of the scheduler: what holds between any two handlers, split into a part about the
  schedule (\<open>glob\<close>) and, for each CPU, the agreement of its window with the installed entries
  and with its breakpoint table (\<open>core\<close>), the footprints of installed entries (\<open>marks\<close>)
  and the cursors of the window (\<open>cursor\<close>).
\<close>

section \<open>What the window operations leave alone\<close>

text \<open>
  \<open>skel s\<close> erases what those operations may change: footprints, installed flags, windows,
  breakpoint tables and debug registers.
\<close>

definition bare :: "qcsched_entry \<Rightarrow> qcsched_entry" where
  "bare e = e\<lparr>schedpoint := (schedpoint e)\<lparr>sp_footprint := footprint_preserved\<rparr>, installed := False\<rparr>"

definition skel :: "qstate \<Rightarrow> qstate" where
  "skel s = s\<lparr>
     sched := (sched s)\<lparr>entries := bare \<circ> entries (sched s), schedpoint_window := \<lambda>_. zero_window\<rparr>,
     hw_breakpoint := \<lambda>_. \<lparr>bp = \<lambda>_. \<lparr>bp_addr = 0, bp_len = 0, bp_type = 0\<rparr>, nb = 0\<rparr>,
     guest_debug := \<lambda>_. \<lparr>control = 0, debugreg = \<lambda>_. 0\<rparr>,
     nr_ioctls := 0\<rparr>"

lemma skel_simps:
  "tot (skel s) = tot s" "current (sched (skel s)) = current (sched s)"
  "cpu_state (sched (skel s)) = cpu_state (sched s)"
  "activated (sched (skel s)) = activated (sched s)" "used (sched (skel s)) = used (sched s)"
  "orig_nr_bps (sched (skel s)) = orig_nr_bps (sched s)" "nr_cpus (sched (skel s)) = nr_cpus (sched s)"
  "last_breakpoint (sched (skel s)) = last_breakpoint (sched s)"
  "kssb_enabled (sched (skel s)) = kssb_enabled (sched s)"
  "vmi_info (skel s) = vmi_info s" "infos (skel s) = infos s" "cpus (skel s) = cpus s"
  "cpu_of (skel s) = cpu_of s" "vcpu_regs (skel s) = vcpu_regs s" "warn_once (skel s) = warn_once s"
  "iothread_locked (skel s) = iothread_locked s" "current_cpu (skel s) = current_cpu s"
  "vm_running (skel s) = vm_running s" "phys_page (skel s) = phys_page s" "pmem (skel s) = pmem s"
  "ext (skel s) = ext s"
  by (simp_all add: skel_def)

lemma skel_entry_simps:
  "e_addr (entry (skel s) i) = e_addr (entry s i)" "e_order (entry (skel s) i) = e_order (entry s i)"
  "e_cpu (entry (skel s) i) = e_cpu (entry s i)" "e_task (entry (skel s) i) = e_task (entry s i)"
  by (simp_all add: skel_def bare_def)

lemma skelD:
  assumes "skel t = skel s"
  shows "tot t = tot s" "current (sched t) = current (sched s)" "cpu_state (sched t) = cpu_state (sched s)"
    "activated (sched t) = activated (sched s)" "used (sched t) = used (sched s)"
    "orig_nr_bps (sched t) = orig_nr_bps (sched s)" "nr_cpus (sched t) = nr_cpus (sched s)"
    "last_breakpoint (sched t) = last_breakpoint (sched s)"
    "kssb_enabled (sched t) = kssb_enabled (sched s)"
    "vmi_info t = vmi_info s" "infos t = infos s" "cpus t = cpus s" "cpu_of t = cpu_of s"
    "vcpu_regs t = vcpu_regs s" "warn_once t = warn_once s" "iothread_locked t = iothread_locked s"
    "current_cpu t = current_cpu s" "vm_running t = vm_running s" "phys_page t = phys_page s"
    "pmem t = pmem s" "ext t = ext s"
    "e_addr (entry t i) = e_addr (entry s i)" "e_order (entry t i) = e_order (entry s i)"
    "e_cpu (entry t i) = e_cpu (entry s i)" "e_task (entry t i) = e_task (entry s i)"
  by (insert skel_simps [of s] skel_simps [of t] skel_entry_simps [of s i] skel_entry_simps [of t i],
      unfold assms, simp_all)

lemma kvm_frame_skel: "kvm_frame s t \<Longrightarrow> skel t = skel s"
  by (rule qstate.equality) (simp_all add: skel_def kvm_frame_def)

lemma skel_upd_window [simp]: "skel (upd_window c f s) = skel s"
  by (simp add: skel_def upd_window_def)

lemma skel_upd_entry: "bare (f (entry s e)) = bare (entry s e) \<Longrightarrow> skel (upd_entry e f s) = skel s"
  by (simp add: skel_def upd_entry_def fun_upd_comp fun_upd_idem)

lemma skel_upd_installed [simp]: "skel (upd_entry e (\<lambda>x. x\<lparr>installed := b\<rparr>) s) = skel s"
  by (rule skel_upd_entry) (simp add: bare_def)

lemma skel_upd_footprint [simp]:
  "skel (upd_entry e (\<lambda>x. x\<lparr>schedpoint := (schedpoint x)\<lparr>sp_footprint := f\<rparr>\<rparr>) s) = skel s"
  by (rule skel_upd_entry) (simp add: bare_def)

section \<open>Entries of a CPU\<close>

definition own :: "qstate \<Rightarrow> int \<Rightarrow> int \<Rightarrow> bool" where
  "own s c i \<longleftrightarrow> 0 \<le> i \<and> i < MAX_SCHEDPOINTS \<and> e_cpu (entry s i) = c"

definition installed_on :: "qstate \<Rightarrow> int \<Rightarrow> int set" where
  "installed_on s c = {i. own s c i \<and> installed (entry s i)}"

lemma finite_installed_on [simp]: "finite (installed_on s c)"
  by (rule finite_subset [of _ "{0..<MAX_SCHEDPOINTS}"]) (auto simp: installed_on_def own_def)

text \<open>\<open>only c s t\<close>: from \<open>s\<close> to \<open>t\<close> the window operations worked for CPU \<open>c\<close> alone.\<close>

definition only :: "int \<Rightarrow> qstate \<Rightarrow> qstate \<Rightarrow> bool" where
  "only c s t \<longleftrightarrow> skel t = skel s \<and>
     (\<forall>d. d \<noteq> c \<longrightarrow> window t d = window s d \<and> hw_breakpoint t d = hw_breakpoint s d) \<and>
     (\<forall>i. e_cpu (entry s i) \<noteq> c \<longrightarrow> entry t i = entry s i)"

lemma only_refl [simp]: "only c s s"
  by (simp add: only_def)

lemma only_trans: "only c s t \<Longrightarrow> only c t u \<Longrightarrow> only c s u"
  by (auto simp: only_def dest: skelD(24))

lemma only_skel: "only c s t \<Longrightarrow> skel t = skel s"
  by (simp add: only_def)

lemma own_skel: "skel t = skel s \<Longrightarrow> own t c i = own s c i"
  by (simp add: own_def skelD(24) [of t s])

section \<open>The invariant\<close>

definition glob :: "qstate \<Rightarrow> bool" where
  "glob s \<longleftrightarrow>
     0 \<le> tot s \<and> tot s \<le> MAX_SCHEDPOINTS \<and> 0 \<le> current (sched s) \<and> current (sched s) \<le> tot s \<and>
     (\<forall>i. 0 \<le> i \<and> i < MAX_SCHEDPOINTS \<longrightarrow>
        (tot s \<le> i \<longrightarrow> e_addr (entry s i) = 0) \<and>
        (if e_addr (entry s i) = 0 then e_cpu (entry s i) = 0 \<and> e_order (entry s i) = 0
         else e_order (entry s i) = i \<and> e_cpu (entry s i) \<in> set (cpus s))) \<and>
     distinct (cpus s) \<and> 0 \<in> set (cpus s) \<and> set (cpus s) \<subseteq> {0..<MAX_CPUS} \<and>
     (\<forall>c. waking_up (infos s c) \<longrightarrow> blocked (infos s c)) \<and> \<not> blocked (infos s 0) \<and>
     (\<forall>c. lock_count (lock_info (vmi_info s) c) = 0)"

definition core :: "qstate \<Rightarrow> int \<Rightarrow> bool" where
  "core s c \<longleftrightarrow>
     w_cpu (window s c) = c \<and> w_activated (window s c) = int (card (installed_on s c)) \<and>
     w_activated (window s c) \<le> SCHEDPOINT_WINDOW_SIZE \<and> hw_wf s c \<and>
     hw_addrs s c \<subseteq> insert (hook_addr (vmi_info s)) ((\<lambda>i. e_addr (entry s i)) ` installed_on s c) \<and>
     (\<forall>i\<in>installed_on s c. e_addr (entry s i) \<noteq> QCSCHED_DUMMY_BREAKPOINT) \<and>
     (c = 0 \<longrightarrow> installed_on s c = {} \<and> w_total (window s c) = 0 \<and> hw_addrs s c = {})"

definition marks :: "qstate \<Rightarrow> int \<Rightarrow> bool" where
  "marks s c \<longleftrightarrow> (\<forall>i\<in>installed_on s c. e_footprint (entry s i) = footprint_preserved)"

text \<open>\<^verbatim>\<open>left_behind\<close> is unset or names an entry of the CPU below \<open>n\<close>.\<close>

definition left_ok :: "qstate \<Rightarrow> int \<Rightarrow> int \<Rightarrow> bool" where
  "left_ok s c n \<longleftrightarrow> w_left_behind (window s c) = END_OF_SCHEDPOINT_WINDOW \<or>
     own s c (w_left_behind (window s c)) \<and>
     e_footprint (entry s (w_left_behind (window s c))) \<noteq> footprint_missed \<and> w_left_behind (window s c) < n"

definition cursor :: "qstate \<Rightarrow> int \<Rightarrow> bool" where
  "cursor s c \<longleftrightarrow>
     (w_from (window s c) \<noteq> END_OF_SCHEDPOINT_WINDOW \<longrightarrow>
        own s c (w_from (window s c)) \<and> e_footprint (entry s (w_from (window s c))) \<noteq> footprint_missed) \<and>
     (\<forall>i. own s c i \<and> w_from (window s c) \<le> i \<longrightarrow>
        e_footprint (entry s i) \<in> {footprint_preserved, footprint_missed}) \<and>
     w_from (window s c) \<le> w_until (window s c) \<and> w_until (window s c) \<le> END_OF_SCHEDPOINT_WINDOW \<and>
     left_ok s c (w_from (window s c)) \<and>
     (cpu_state (sched s) c = qcsched_cpu_activated \<and> w_from (window s c) \<noteq> END_OF_SCHEDPOINT_WINDOW \<longrightarrow>
        w_total (window s c) \<noteq> 0)"

text \<open>
  What the state of a CPU in the schedule says about it: before activation nothing is armed, after
  deactivation the window is closed and at most the hook is armed, and only an activated CPU is blocked.
\<close>

definition closed_window :: "qstate \<Rightarrow> int \<Rightarrow> bool" where
  "closed_window s c \<longleftrightarrow> w_from (window s c) = END_OF_SCHEDPOINT_WINDOW \<and>
     w_until (window s c) = END_OF_SCHEDPOINT_WINDOW \<and> w_left_behind (window s c) = END_OF_SCHEDPOINT_WINDOW \<and>
     w_activated (window s c) = 0 \<and> w_total (window s c) = 0"

definition quiet :: "qstate \<Rightarrow> int \<Rightarrow> bool" where
  "quiet s c \<longleftrightarrow>
     (cpu_state (sched s) c \<in> {qcsched_cpu_idle, qcsched_cpu_ready} \<longrightarrow>
        hw_addrs s c = {} \<and> installed_on s c = {} \<and> w_total (window s c) = 0 \<and>
        w_left_behind (window s c) = END_OF_SCHEDPOINT_WINDOW \<and>
        (\<forall>i. own s c i \<longrightarrow> e_footprint (entry s i) \<in> {footprint_preserved, footprint_missed})) \<and>
     (cpu_state (sched s) c = qcsched_cpu_activated \<longrightarrow> tot s \<noteq> 0 \<and> (activated (sched s) \<or> used (sched s))) \<and>
     (cpu_state (sched s) c = qcsched_cpu_deactivated \<longrightarrow> closed_window s c \<and>
        (hw_addrs s c = {} \<or> \<not> activated (sched s) \<and> used (sched s) \<and> tot s \<noteq> 0)) \<and>
     (blocked (infos s c) \<longrightarrow> cpu_state (sched s) c = qcsched_cpu_activated)"

text \<open>No two entries of a worker CPU share an address, and none lies on the hook.\<close>

definition distinct_addrs :: "qstate \<Rightarrow> bool" where
  "distinct_addrs s \<longleftrightarrow>
     (\<forall>c i. c \<noteq> 0 \<and> own s c i \<longrightarrow> e_addr (entry s i) \<noteq> hook_addr (vmi_info s) \<and>
        (\<forall>j. own s c j \<and> i \<noteq> j \<and> e_addr (entry s i) \<noteq> QCSCHED_DUMMY_BREAKPOINT \<longrightarrow>
           e_addr (entry s i) \<noteq> e_addr (entry s j)))"

definition win :: "qstate \<Rightarrow> int \<Rightarrow> bool" where
  "win s c \<longleftrightarrow> core s c \<and> marks s c \<and> (c \<noteq> 0 \<longrightarrow> cursor s c \<and> quiet s c)"

definition sched_inv :: "qstate \<Rightarrow> bool" where
  "sched_inv s \<longleftrightarrow> glob s \<and> distinct_addrs s \<and> (\<forall>c\<in>set (cpus s). win s c)"

text \<open>The debug ioctl succeeds.\<close>

definition io_ok :: "qstate \<Rightarrow> bool" where
  "io_ok s \<longleftrightarrow> (\<forall>n c. ext_set_guest_debug (ext s) n c = 0)"

lemma glob_skel:
  assumes "skel t = skel s"
  shows "glob t = glob s"
  by (simp add: glob_def skelD [OF assms])

lemma io_ok_skel:
  assumes "skel t = skel s"
  shows "io_ok t = io_ok s"
  by (simp add: io_ok_def skelD [OF assms])

lemma distinct_addrs_skel:
  assumes "skel t = skel s"
  shows "distinct_addrs t = distinct_addrs s"
  by (simp add: distinct_addrs_def skelD [OF assms] own_skel [OF assms])

lemma own_glob:
  assumes "glob s" and "own s c i" and "c \<noteq> 0"
  shows "0 \<le> i" and "i < tot s" and "e_order (entry s i) = i" and "e_addr (entry s i) \<noteq> 0"
    and "c \<in> set (cpus s)"
  using assms by (auto simp: glob_def own_def dest!: spec [of _ i] split: if_splits)

lemma own_iff: "glob s \<Longrightarrow> c \<noteq> 0 \<Longrightarrow> own s c i \<longleftrightarrow> 0 \<le> i \<and> i < tot s \<and> e_cpu (entry s i) = c"
  using own_glob(1,2) [of s c i] by (auto simp: own_def glob_def)

section \<open>The other CPUs\<close>

lemma only_other:
  assumes "only c s t" and "d \<noteq> c"
  shows "installed_on t d = installed_on s d" and "win t d = win s d"
proof -
  note sk = only_skel [OF assms(1)]
  have e: "entry t i = entry s i" if "own s d i" for i
    using assms that by (auto simp: only_def own_def)
  have w: "window t d = window s d" "hw_wf t d = hw_wf s d" "hw_addrs t d = hw_addrs s d"
    using assms hw_cong [of t d s] by (auto simp: only_def)
  show i: "installed_on t d = installed_on s d"
    using e by (auto simp: installed_on_def own_skel [OF sk])
  have "(\<lambda>i. e_addr (entry t i)) ` installed_on s d = (\<lambda>i. e_addr (entry s i)) ` installed_on s d"
    using e by (intro image_cong) (auto simp: installed_on_def)
  then have "core t d = core s d"
    using i w e by (auto simp: core_def skelD [OF sk] installed_on_def)
  moreover have "marks t d = marks s d"
    using i e by (auto simp: marks_def installed_on_def)
  moreover have "cursor t d = cursor s d"
    using w e by (auto simp: cursor_def left_ok_def own_skel [OF sk] skelD [OF sk])
  moreover have "quiet t d = quiet s d"
    using w e i by (auto simp: quiet_def closed_window_def own_skel [OF sk] skelD [OF sk])
  ultimately show "win t d = win s d"
    by (simp add: win_def)
qed

lemma sched_inv_only:
  assumes "sched_inv s" and "only c s t" and "win t c"
  shows "sched_inv t"
proof -
  note sk = only_skel [OF assms(2)]
  have "win t d" if "d \<in> set (cpus s)" for d
    using assms(1,3) that only_other [OF assms(2), of d] by (cases "d = c") (auto simp: sched_inv_def)
  then show ?thesis
    using assms(1)
    by (simp add: sched_inv_def glob_skel [OF sk] distinct_addrs_skel [OF sk] skelD [OF sk])
qed

lemma sched_invD:
  assumes "sched_inv s" and "c \<in> set (cpus s)"
  shows "glob s" "distinct_addrs s" "win s c"
  using assms by (auto simp: sched_inv_def)

text \<open>The invariant does not look at the rest of the state.\<close>

lemma table_parts:
  assumes "entries (sched t) = entries (sched s)" "schedpoint_window (sched t) = schedpoint_window (sched s)"
    "cpu_state (sched t) = cpu_state (sched s)"
    "hook_addr (vmi_info t) = hook_addr (vmi_info s)" "hw_breakpoint t = hw_breakpoint s"
  shows "distinct_addrs t = distinct_addrs s" "core t c = core s c" "marks t c = marks s c" "cursor t c = cursor s c"
    "hw_addrs t c = hw_addrs s c" "own t c i = own s c i" "installed_on t c = installed_on s c"
    "closed_window t c = closed_window s c"
proof -
  have hw: "hw_wf t d = hw_wf s d" "hw_addrs t d = hw_addrs s d" for d
    using hw_cong [of t d s] assms(5) by auto
  have own: "own t d i = own s d i" for d i
    by (simp add: own_def assms(1))
  have ion: "installed_on t d = installed_on s d" for d
    by (simp add: installed_on_def own assms(1))
  show "distinct_addrs t = distinct_addrs s" "core t c = core s c" "marks t c = marks s c" "cursor t c = cursor s c"
    "hw_addrs t c = hw_addrs s c" "own t c i = own s c i" "installed_on t c = installed_on s c"
    "closed_window t c = closed_window s c"
    by (simp_all add: distinct_addrs_def core_def marks_def cursor_def left_ok_def closed_window_def hw own ion assms)
qed

lemma inv_parts:
  assumes "entries (sched t) = entries (sched s)" "schedpoint_window (sched t) = schedpoint_window (sched s)"
    "cpu_state (sched t) = cpu_state (sched s)" "tot t = tot s"
    "activated (sched t) = activated (sched s)" "used (sched t) = used (sched s)"
    "hook_addr (vmi_info t) = hook_addr (vmi_info s)" "cpus t = cpus s" "hw_breakpoint t = hw_breakpoint s"
  shows "distinct_addrs t = distinct_addrs s" "core t c = core s c" "marks t c = marks s c" "cursor t c = cursor s c"
    "quiet s c \<Longrightarrow> (blocked (infos t c) \<Longrightarrow> cpu_state (sched s) c = qcsched_cpu_activated) \<Longrightarrow> quiet t c"
  using table_parts [OF assms(1-3,7,9)] by (simp_all add: quiet_def assms(1-6))

lemma sched_inv_parts:
  assumes "sched_inv s" and "glob t"
    and "entries (sched t) = entries (sched s)" "schedpoint_window (sched t) = schedpoint_window (sched s)"
    "cpu_state (sched t) = cpu_state (sched s)" "tot t = tot s"
    "activated (sched t) = activated (sched s)" "used (sched t) = used (sched s)"
    "hook_addr (vmi_info t) = hook_addr (vmi_info s)" "cpus t = cpus s" "hw_breakpoint t = hw_breakpoint s"
    and "\<And>c. c \<in> set (cpus s) \<Longrightarrow> c \<noteq> 0 \<Longrightarrow> blocked (infos t c) \<Longrightarrow> cpu_state (sched s) c = qcsched_cpu_activated"
  shows "sched_inv t"
  using assms(1,2,12) inv_parts [OF assms(3-11)] by (auto simp: sched_inv_def win_def assms(10))

lemma sched_inv_cong:
  assumes "sched_inv s"
    and "entries (sched t) = entries (sched s)" "schedpoint_window (sched t) = schedpoint_window (sched s)"
    "cpu_state (sched t) = cpu_state (sched s)" "tot t = tot s" "current (sched t) = current (sched s)"
    "activated (sched t) = activated (sched s)" "used (sched t) = used (sched s)"
    "hook_addr (vmi_info t) = hook_addr (vmi_info s)" "lock_info (vmi_info t) = lock_info (vmi_info s)"
    "infos t = infos s" "cpus t = cpus s" "hw_breakpoint t = hw_breakpoint s"
  shows "sched_inv t"
proof (rule sched_inv_parts [OF assms(1)])
  show "glob t"
    using assms(1) by (simp add: sched_inv_def glob_def assms(2-13))
  show "cpu_state (sched s) c = qcsched_cpu_activated" if "c \<in> set (cpus s)" "c \<noteq> 0" "blocked (infos t c)" for c
    using assms(1,11) that by (simp add: sched_inv_def win_def quiet_def)
qed (simp_all add: assms(2-13))

end
