(* ===== verification/Window_Inv.thy ===== *)
theory Window_Inv
  imports Sched_Inv
begin

text \<open>
  The window operations keep the invariant, and do not end the process: every \<^verbatim>\<open>ASSERT\<close> of
  \<^verbatim>\<open>window.c\<close> follows from the invariant, given the conditions named with \<open>b\<close> below.
\<close>

section \<open>Looking up\<close>

lemma lookup_SomeD:
  assumes "lookup_entry_by_order s (Some c) f = Some e"
  shows "f \<le> e" "e < tot s" "e_cpu (entry s e) = c" "e_footprint (entry s e) \<noteq> footprint_missed"
    "\<And>j. f \<le> j \<Longrightarrow> j < e \<Longrightarrow> e_cpu (entry s j) = c \<Longrightarrow> e_footprint (entry s j) = footprint_missed"
  using assms by (auto simp: lookup_entry_by_order_def find_upto_Some split: if_splits)

lemma lookup_own:
  assumes "glob s" and "lookup_entry_by_order s (Some c) f = Some e" and "0 \<le> f" and "c \<noteq> 0"
  shows "own s c e" "f \<le> e" "e_footprint (entry s e) \<noteq> footprint_missed" "e_order (entry s e) = e"
    "0 \<le> e" "e < tot s" "e < MAX_SCHEDPOINTS"
proof -
  show o: "own s c e"
    using assms lookup_SomeD [OF assms(2)] by (simp add: own_iff)
  show "f \<le> e" "e_footprint (entry s e) \<noteq> footprint_missed" "e < tot s"
    using lookup_SomeD [OF assms(2)] by auto
  show "e_order (entry s e) = e" "0 \<le> e" "e < MAX_SCHEDPOINTS"
    using own_glob [OF assms(1) o assms(4)] o by (auto simp: own_def)
qed

lemma lookup_END [simp]: "lookup_entry_by_order s c END_OF_SCHEDPOINT_WINDOW = None"
  by (simp add: lookup_entry_by_order_def)

lemma lookup_self:
  assumes "glob s" and "own s c f" and "c \<noteq> 0" and "e_footprint (entry s f) \<noteq> footprint_missed"
  shows "lookup_entry_by_order s (Some c) f = Some f"
  using assms own_glob [OF assms(1-3)]
  by (auto simp: lookup_entry_by_order_def find_upto_Some own_def END_OF_SCHEDPOINT_WINDOW_def)

text \<open>\<open>order_or_end\<close> of a lookup is a legal cursor.\<close>

lemma order_or_end_lookup:
  assumes "glob s" and "0 \<le> f" and "c \<noteq> 0"
  defines "n \<equiv> order_or_end s (lookup_entry_by_order s (Some c) f)"
  shows "n \<noteq> END_OF_SCHEDPOINT_WINDOW \<Longrightarrow> own s c n \<and> e_footprint (entry s n) \<noteq> footprint_missed \<and> f \<le> n"
    and "f \<le> END_OF_SCHEDPOINT_WINDOW \<Longrightarrow> f \<le> n" and "n \<le> END_OF_SCHEDPOINT_WINDOW"
proof -
  have "n = END_OF_SCHEDPOINT_WINDOW \<or>
    (own s c n \<and> e_footprint (entry s n) \<noteq> footprint_missed \<and> f \<le> n \<and> n < MAX_SCHEDPOINTS)"
  proof (cases "lookup_entry_by_order s (Some c) f")
    case None
    then show ?thesis by (simp add: n_def order_or_end_def)
  next
    case (Some e)
    then show ?thesis using lookup_own [OF assms(1) Some assms(2,3)] by (simp add: n_def order_or_end_def)
  qed
  then show "n \<noteq> END_OF_SCHEDPOINT_WINDOW \<Longrightarrow> own s c n \<and> e_footprint (entry s n) \<noteq> footprint_missed \<and> f \<le> n"
    and "f \<le> END_OF_SCHEDPOINT_WINDOW \<Longrightarrow> f \<le> n" and "n \<le> END_OF_SCHEDPOINT_WINDOW"
    by (auto simp: END_OF_SCHEDPOINT_WINDOW_def)
qed

section \<open>Installing one entry\<close>

abbreviation same_footprints :: "qstate \<Rightarrow> qstate \<Rightarrow> bool" where
  "same_footprints s t \<equiv> \<forall>i. e_footprint (entry t i) = e_footprint (entry s i)"

abbreviation same_cursors :: "qstate \<Rightarrow> qstate \<Rightarrow> int \<Rightarrow> bool" where
  "same_cursors s t c \<equiv> w_from (window t c) = w_from (window s c) \<and>
     w_until (window t c) = w_until (window s c) \<and> w_left_behind (window t c) = w_left_behind (window s c) \<and>
     w_total (window t c) = w_total (window s c)"

text \<open>The breakpoint table has room for the hook and a full window, so an insertion for a window
  that is not full finds a free slot.\<close>

lemma core_card_hw:
  assumes "core s c"
  shows "card (hw_addrs s c) \<le> Suc (card (installed_on s c))"
proof -
  have "card (hw_addrs s c) \<le> card (insert (hook_addr (vmi_info s)) ((\<lambda>i. e_addr (entry s i)) ` installed_on s c))"
    using assms by (intro card_mono) (auto simp: core_def)
  also have "\<dots> \<le> Suc (card ((\<lambda>i. e_addr (entry s i)) ` installed_on s c))"
    by (rule card_insert_le_m1) simp_all
  also have "\<dots> \<le> Suc (card (installed_on s c))"
    by (simp add: card_image_le)
  finally show ?thesis .
qed

lemma core_nonempty:
  assumes "core s c" and "own s c e" and "installed (entry s e)"
  shows "w_activated (window s c) \<noteq> 0"
proof -
  have "e \<in> installed_on s c"
    using assms(2,3) by (simp add: installed_on_def)
  then show ?thesis
    using assms(1) card_0_eq [OF finite_installed_on, of s c] by (auto simp: core_def)
qed

lemma insert_schedpoint_ok:
  assumes "core s c" and "own s c e" and "c \<noteq> 0" and "\<not> installed (entry s e)"
    and "w_activated (window s c) < SCHEDPOINT_WINDOW_SIZE" and "e_addr (entry s e) \<noteq> QCSCHED_DUMMY_BREAKPOINT"
    and "io_ok s" and "distinct_addrs s"
  shows "fst (kvm_insert_breakpoint_cpu s c (e_addr (entry s e)) 1 GDB_BREAKPOINT_HW) = 0"
proof -
  have "e_addr (entry s e) \<notin> hw_addrs s c"
  proof
    assume "e_addr (entry s e) \<in> hw_addrs s c"
    then have "e_addr (entry s e) = hook_addr (vmi_info s) \<or>
        (\<exists>i\<in>installed_on s c. e_addr (entry s e) = e_addr (entry s i))"
      using assms(1) by (auto simp: core_def)
    then show False
      using assms(2-4,6,8) unfolding distinct_addrs_def installed_on_def by (metis mem_Collect_eq)
  qed
  moreover have "card (hw_addrs s c) \<noteq> 4"
    using core_card_hw [OF assms(1)] assms(1,5) by (auto simp: core_def SCHEDPOINT_WINDOW_SIZE_def)
  ultimately show ?thesis
    using assms(1,7) by (simp add: kvm_insert_breakpoint_cpu_result core_def io_ok_def)
qed

lemma core_install:
  assumes "core s c" and "own s c e" and "c \<noteq> 0" and "\<not> installed (entry s e)"
    and "w_activated (window s c) < SCHEDPOINT_WINDOW_SIZE" and "e_addr (entry s e) \<noteq> QCSCHED_DUMMY_BREAKPOINT"
    and ins: "kvm_insert_breakpoint_cpu s c (e_addr (entry s e)) 1 GDB_BREAKPOINT_HW = (err, s1)"
  defines "t \<equiv> upd_window c (\<lambda>x. x\<lparr>w_activated := w_activated x + 1\<rparr>)
                 (upd_entry e (\<lambda>x. x\<lparr>installed := True\<rparr>) s1)"
  shows "only c s t" and "core t c" and "same_footprints s t"
    and "installed_on t c = insert e (installed_on s c)"
    and "same_cursors s t c"
proof -
  note fr = kvm_insert_breakpoint_cpu_frame [OF ins]
  note f = kvm_frame_simps [OF fr(1)]
  note tab = kvm_insert_breakpoint_cpu_table [OF _ ins]
  have sk: "skel t = skel s"
    unfolding t_def by (simp add: kvm_frame_skel [OF fr(1)])
  show "only c s t"
    using sk fr(2) assms(2) by (auto simp: only_def t_def upd_defs f own_def)
  have w: "window t c = (window s c)\<lparr>w_activated := w_activated (window s c) + 1\<rparr>"
    by (simp add: t_def upd_defs f)
  then show "same_cursors s t c"
    by simp
  show "same_footprints s t"
    by (auto simp: t_def upd_defs f)
  show i: "installed_on t c = insert e (installed_on s c)"
    using assms(2) by (auto simp: installed_on_def t_def upd_defs f own_def)
  have e: "e \<notin> installed_on s c"
    using assms(4) by (simp add: installed_on_def)
  have hw: "hw_wf t c = hw_wf s1 c" "hw_addrs t c = hw_addrs s1 c"
    by (rule hw_cong, simp add: t_def upd_defs)+
  have "hw_addrs s1 c \<subseteq> insert (e_addr (entry s e)) (hw_addrs s c)" "hw_wf s1 c"
    using tab assms(1) by (auto simp: core_def)
  then show "core t c"
    using assms(1,3,5,6) e
    by (auto simp: core_def w i hw skelD [OF sk])
qed

lemma activate_entry_spec:
  assumes "core s c" and "own s c e" and "c \<noteq> 0" and "w_activated (window s c) < SCHEDPOINT_WINDOW_SIZE"
    and "distinct_addrs s" and "b \<Longrightarrow> io_ok s"
  shows "res_spec b (\<lambda>t. only c s t \<and> core t c \<and> same_footprints s t \<and>
      installed_on t c \<subseteq> insert e (installed_on s c) \<and> same_cursors s t c)
    (qcsched_window_activate_entry s c c e)"
proof -
  obtain err s1 where ins: "kvm_insert_breakpoint_cpu s c (e_addr (entry s e)) 1 GDB_BREAKPOINT_HW = (err, s1)"
    by fastforce
  show ?thesis
  proof (cases "e_addr (entry s e) = QCSCHED_DUMMY_BREAKPOINT \<or> installed (entry s e)")
    case True
    then show ?thesis
      using assms(1,4) by (auto simp: qcsched_window_activate_entry_def schedpoint_window_full_def)
  next
    case False
    note ci = core_install [OF assms(1-3) _ assms(4) _ ins]
    have "b \<Longrightarrow> err = 0"
      using insert_schedpoint_ok [OF assms(1-3) _ assms(4)] False assms(5,6) ins by simp
    then show ?thesis
      using False assms(4) ci ins
      by (auto simp: qcsched_window_activate_entry_def schedpoint_window_full_def Let_def c_assert_def)
  qed
qed

section \<open>Moving the cursors\<close>

lemma upd_window_simps [simp]:
  "window (upd_window c f s) d = (if d = c then f (window s c) else window s d)"
  "entry (upd_window c f s) i = entry s i" "hw_breakpoint (upd_window c f s) = hw_breakpoint s"
  "hw_wf (upd_window c f s) d = hw_wf s d" "hw_addrs (upd_window c f s) d = hw_addrs s d"
  "own (upd_window c f s) d i = own s d i" "installed_on (upd_window c f s) d = installed_on s d"
  "lookup_entry_by_order (upd_window c f s) = lookup_entry_by_order s"
  "order_or_end (upd_window c f s) = order_or_end s"
  by (auto simp: upd_window_def hw_wf_def hw_addrs_def own_def installed_on_def
      lookup_entry_by_order_def order_or_end_def fun_eq_iff cong: option.case_cong)

lemma upd_window_only [simp]: "only c s (upd_window c f s)"
  by (simp add: only_def)

lemma upd_window_skelD [simp]:
  "tot (upd_window c f s) = tot s" "current (sched (upd_window c f s)) = current (sched s)"
  "cpu_state (sched (upd_window c f s)) = cpu_state (sched s)"
  "activated (sched (upd_window c f s)) = activated (sched s)" "used (sched (upd_window c f s)) = used (sched s)"
  "vmi_info (upd_window c f s) = vmi_info s" "infos (upd_window c f s) = infos s" "cpus (upd_window c f s) = cpus s"
  "cpu_of (upd_window c f s) = cpu_of s" "ext (upd_window c f s) = ext s"
  "current_cpu (upd_window c f s) = current_cpu s" "iothread_locked (upd_window c f s) = iothread_locked s"
  by (simp_all add: upd_window_def)

text \<open>A change of the cursors keeps the counts.\<close>

lemma core_upd_window:
  assumes "w_cpu (f (window s c)) = w_cpu (window s c)" "w_activated (f (window s c)) = w_activated (window s c)"
    and "c \<noteq> 0"
  shows "core (upd_window c f s) c = core s c" "marks (upd_window c f s) c = marks s c"
  using assms by (simp_all add: core_def marks_def)

lemma quiet_activated:
  assumes "quiet s c" and "skel t = skel s" and "cpu_state (sched s) c = qcsched_cpu_activated"
  shows "quiet t c"
  using assms(1,3) by (simp add: quiet_def skelD [OF assms(2)])

lemma same_footprints_trans: "same_footprints s t \<Longrightarrow> same_footprints t u \<Longrightarrow> same_footprints s u"
  by simp

section \<open>Expanding\<close>

lemma expand_1_spec:
  assumes "glob s" and "distinct_addrs s" and "win s c" and "c \<noteq> 0"
    and busy: "cpu_state (sched s) c \<notin> {qcsched_cpu_idle, qcsched_cpu_ready}"
    and nf: "\<not> schedpoint_window_full (window s c)" and "b \<Longrightarrow> io_ok s"
  shows "res_spec b (\<lambda>t. only c s t \<and> win t c \<and> same_footprints s t)
    (qcsched_window_expand_window_1 s c c)"
proof (cases "lookup_entry_by_order s (Some c) (w_until (window s c))")
  case None
  then show ?thesis
    using assms(3) by (simp add: qcsched_window_expand_window_1_def)
next
  case (Some e)
  have w: "core s c" "marks s c" "cursor s c" "quiet s c"
    using assms(3,4) by (auto simp: win_def)
  have from0: "0 \<le> w_from (window s c)"
    using w(3) by (auto simp: cursor_def own_def END_OF_SCHEDPOINT_WINDOW_def MAX_SCHEDPOINTS_def)
  have e: "own s c e" "w_until (window s c) \<le> e" "e_footprint (entry s e) \<noteq> footprint_missed"
    "e_order (entry s e) = e" "0 \<le> e" "e < MAX_SCHEDPOINTS"
    using lookup_own [OF assms(1) Some _ assms(4)] from0 w(3) by (auto simp: cursor_def)
  have act: "cpu_state (sched s) c = qcsched_cpu_activated"
    using busy w(4) Some by (cases "cpu_state (sched s) c") (auto simp: quiet_def closed_window_def)
  define s1 where "s1 = (if schedpoint_window_empty (window s c)
    then upd_window c (\<lambda>x. x\<lparr>w_from := e_order (entry s e)\<rparr>) s else s)"
  have s1: "only c s s1" "core s1 c" "same_footprints s s1" "own s1 c e" "distinct_addrs s1" "io_ok s1 = io_ok s"
    "w_left_behind (window s1 c) = w_left_behind (window s c) \<and> w_total (window s1 c) = w_total (window s c) \<and>
     w_activated (window s1 c) = w_activated (window s c)"
    "installed_on s1 c = installed_on s c"
    "w_from (window s1 c) \<in> {e, w_from (window s c)}" "skel s1 = skel s"
    using w assms(2,4) e by (auto simp: s1_def core_upd_window distinct_addrs_skel [OF skel_upd_window]
        io_ok_skel [OF skel_upd_window])
  have lt: "w_activated (window s1 c) < SCHEDPOINT_WINDOW_SIZE"
    using nf s1(2,7) by (auto simp: core_def schedpoint_window_full_def)
  have fresh: "e_footprint (entry s e) = footprint_preserved"
    using w(3) e by (auto simp: cursor_def)
  have "res_spec b (\<lambda>t. only c s t \<and> win t c \<and> same_footprints s t)
     (res_bind (qcsched_window_activate_entry s1 c c e) (\<lambda>s.
        let next = lookup_entry_by_order s (Some c) (e_order (entry s e) + 1) in
        Ok (upd_window c (\<lambda>x. x\<lparr>w_until := order_or_end s next\<rparr>) s)))"
  proof (rule res_spec_bind [OF activate_entry_spec [OF s1(2) s1(4) assms(4) lt s1(5)]])
    show "b \<Longrightarrow> io_ok s1" using assms(7) s1(6) by simp
    fix t
    assume t: "only c s1 t \<and> core t c \<and> same_footprints s1 t \<and>
      installed_on t c \<subseteq> insert e (installed_on s1 c) \<and> same_cursors s1 t c"
    have on: "only c s t" using only_trans [OF s1(1)] t by blast
    note sk = only_skel [OF on]
    define n where "n = order_or_end t (lookup_entry_by_order t (Some c) (e_order (entry t e) + 1))"
    have gt: "glob t" using glob_skel [OF sk] assms(1) by simp
    have ot: "e_order (entry t e) = e" using e(4) skelD(23) [OF sk] by simp
    have fp: "same_footprints s t" using s1(3) t by simp
    have frm: "w_from (window t c) \<in> {e, w_from (window s c)}" "w_left_behind (window t c) = w_left_behind (window s c)"
      "w_total (window t c) = w_total (window s c)"
      using t s1(7,9) by auto
    show "res_spec b (\<lambda>t. only c s t \<and> win t c \<and> same_footprints s t)
      (let next = lookup_entry_by_order t (Some c) (e_order (entry t e) + 1) in
        Ok (upd_window c (\<lambda>x. x\<lparr>w_until := order_or_end t next\<rparr>) t))"
    proof -
      have n: "e < n" "n \<le> END_OF_SCHEDPOINT_WINDOW"
        using order_or_end_lookup [OF gt _ assms(4), of "e + 1"] e(5,6) ot
        by (auto simp: n_def END_OF_SCHEDPOINT_WINDOW_def)
      have "marks t c"
        using w(2) t fresh fp s1(8) by (auto simp: marks_def)
      moreover have "cursor (upd_window c (\<lambda>x. x\<lparr>w_until := n\<rparr>) t) c"
        using w(3) frm n e fp by (auto simp: cursor_def left_ok_def own_skel [OF sk] skelD [OF sk])
      moreover have "quiet (upd_window c (\<lambda>x. x\<lparr>w_until := n\<rparr>) t) c"
        by (rule quiet_activated [OF w(4) _ act]) (simp add: sk)
      ultimately have "win (upd_window c (\<lambda>x. x\<lparr>w_until := n\<rparr>) t) c"
        using t assms(4) by (simp add: win_def core_upd_window)
      then show ?thesis
        using on fp only_trans [OF on upd_window_only] by (simp add: n_def)
    qed
  qed
  then show ?thesis
    using Some by (simp add: qcsched_window_expand_window_1_def s1_def Let_def)
qed

lemma expand_n_spec:
  assumes "glob s" and "distinct_addrs s" and "win s c" and "c \<noteq> 0"
    and "cpu_state (sched s) c \<notin> {qcsched_cpu_idle, qcsched_cpu_ready}" and "b \<Longrightarrow> io_ok s"
  shows "res_spec b (\<lambda>t. only c s t \<and> win t c \<and> same_footprints s t)
    (qcsched_window_expand_window_n s c n)"
  using assms
proof (induction n arbitrary: s)
  case 0
  then show ?case by simp
next
  case (Suc n)
  show ?case
  proof (cases "schedpoint_window_full (window s c)")
    case True
    then show ?thesis using Suc.prems by simp
  next
    case False
    have "res_spec b (\<lambda>t. only c s t \<and> win t c \<and> same_footprints s t)
      (res_bind (qcsched_window_expand_window_1 s c c) (\<lambda>s. qcsched_window_expand_window_n s c n))"
    proof (rule res_spec_bind [OF expand_1_spec [OF Suc.prems(1-5) False Suc.prems(6)]])
      fix t
      assume t: "only c s t \<and> win t c \<and> same_footprints s t"
      then have sk: "skel t = skel s" by (auto dest: only_skel)
      have "res_spec b (\<lambda>u. only c t u \<and> win u c \<and> same_footprints t u) (qcsched_window_expand_window_n t c n)"
        by (rule Suc.IH)
          (use t Suc.prems in \<open>simp_all add: glob_skel [OF sk] distinct_addrs_skel [OF sk] io_ok_skel [OF sk] skelD [OF sk]\<close>)
      then show "res_spec b (\<lambda>t. only c s t \<and> win t c \<and> same_footprints s t) (qcsched_window_expand_window_n t c n)"
        by (rule res_spec_mono) (use t in \<open>auto intro: only_trans\<close>)
    qed simp
    then show ?thesis using False by simp
  qed
qed

lemmas expand_window_spec = expand_n_spec [of _ _ _ "nat SCHEDPOINT_WINDOW_SIZE", folded qcsched_window_expand_window_def]

section \<open>Removing one entry\<close>

lemma core_uninstall:
  assumes "core s c" and "e \<in> installed_on s c"
    and rem: "kvm_remove_breakpoint_cpu s c (e_addr (entry s e)) 1 GDB_BREAKPOINT_HW = (err, s1)"
  defines "t \<equiv> upd_window c (\<lambda>x. x\<lparr>w_activated := w_activated x - 1\<rparr>)
                 (upd_entry e (\<lambda>x. x\<lparr>installed := False\<rparr>) s1)"
  shows "only c s t" and "core t c" and "same_footprints s t"
    and "installed_on t c = installed_on s c - {e}" and "same_cursors s t c"
    and "hw_addrs t c \<subseteq> hw_addrs s c"
proof -
  note fr = kvm_remove_breakpoint_cpu_frame [OF rem]
  note f = kvm_frame_simps [OF fr(1)]
  note tab = kvm_remove_breakpoint_cpu_table [OF _ rem]
  have own: "own s c e"
    using assms(2) by (simp add: installed_on_def)
  have sk: "skel t = skel s"
    unfolding t_def by (simp add: kvm_frame_skel [OF fr(1)])
  show "only c s t"
    using sk fr(2) own by (auto simp: only_def t_def upd_entry_def f own_def)
  have w: "window t c = (window s c)\<lparr>w_activated := w_activated (window s c) - 1\<rparr>"
    by (simp add: t_def upd_entry_def f)
  then show "same_cursors s t c"
    by simp
  show "same_footprints s t"
    by (auto simp: t_def upd_entry_def f)
  show i: "installed_on t c = installed_on s c - {e}"
    using own by (auto simp: installed_on_def t_def upd_entry_def f own_def)
  have n: "int (card (installed_on s c - {e})) = int (card (installed_on s c)) - 1"
    using assms(2) by (simp add: of_nat_diff card_gt_0_iff Suc_leI) (metis One_nat_def Suc_leI card_gt_0_iff empty_iff finite_installed_on of_nat_diff of_nat_1)
  have hw: "hw_wf t c = hw_wf s1 c" "hw_addrs t c = hw_addrs s1 c"
    by (rule hw_cong, simp add: t_def upd_entry_def)+
  have s1: "hw_addrs s1 c = hw_addrs s c - {e_addr (entry s e)}" "hw_wf s1 c"
    using tab assms(1) by (auto simp: core_def)
  then show "hw_addrs t c \<subseteq> hw_addrs s c"
    by (auto simp: hw)
  show "core t c"
    using assms(1) n s1 by (auto simp: core_def w i hw skelD [OF sk])
qed

lemma deactivate_local_spec:
  assumes "core s c" and "own s c e" and "b \<Longrightarrow> io_ok s" and "b \<Longrightarrow> current_cpu s = c"
  shows "res_spec b (\<lambda>t. only c s t \<and> core t c \<and> same_footprints s t \<and>
      installed_on t c = installed_on s c - {e} \<and> same_cursors s t c \<and> hw_addrs t c \<subseteq> hw_addrs s c)
    (qcsched_window_deactivate_entry s c c e)"
proof (cases "installed (entry s e)")
  case False
  then show ?thesis
    using assms(1,2)
    by (auto simp: qcsched_window_deactivate_entry_def core_def own_def installed_on_def)
next
  case True
  then have e: "e \<in> installed_on s c"
    using assms(2) by (simp add: installed_on_def)
  obtain err s1 where rem: "kvm_remove_breakpoint_cpu s c (e_addr (entry s e)) 1 GDB_BREAKPOINT_HW = (err, s1)"
    by fastforce
  note core_nonempty [OF assms(1,2) True]
  moreover have "b \<Longrightarrow> err = 0 \<or> err = - ENOENT"
    using kvm_remove_breakpoint_cpu_result [of s c "e_addr (entry s e)"] assms(1,3) rem
    by (auto simp: core_def io_ok_def split: if_splits)
  ultimately show ?thesis
    using True assms(1,2,4) core_uninstall [OF assms(1) e rem] rem
    by (auto simp: qcsched_window_deactivate_entry_def qcsched_window_deactivate_entry_local_def core_def
        own_def schedpoint_window_empty_def c_assert_def)
qed

text \<open>For another CPU the entry is only recorded as left behind.\<close>

lemma deactivate_remote_spec:
  assumes "core s d" and "own s d e" and "d \<noteq> c" and "d \<noteq> 0" and "glob s" and "marks s d" and "left_ok s d n"
  shows "res_spec b (\<lambda>t. only d s t \<and> core t d \<and> (\<forall>i. entry t i = entry s i) \<and>
      w_from (window t d) = w_from (window s d) \<and> w_until (window t d) = w_until (window s d) \<and>
      w_total (window t d) = w_total (window s d) \<and> left_ok t d (max n (e + 1)))
    (qcsched_window_deactivate_entry s c d e)"
proof -
  have "e_footprint (entry s e) \<noteq> footprint_missed" if "installed (entry s e)"
    using assms(2,6) that by (auto simp: marks_def installed_on_def)
  then show ?thesis
    using assms own_glob(1,3) [OF assms(5,2,4)] core_nonempty [OF assms(1,2)]
    by (auto simp: qcsched_window_deactivate_entry_def qcsched_window_deactivate_entry_remote_def core_upd_window
        core_def own_def schedpoint_window_empty_def c_assert_def left_ok_def)
qed

section \<open>The first entry not behind an order\<close>

abbreviation first_own :: "qstate \<Rightarrow> int \<Rightarrow> int \<Rightarrow> int" where
  "first_own s c i \<equiv> order_or_end s (lookup_entry_by_order s (Some c) i)"

lemma lookup_cong:
  assumes "skel t = skel s" and "\<And>i. e_cpu (entry s i) = c \<Longrightarrow> f \<le> i \<Longrightarrow>
      (e_footprint (entry t i) = footprint_missed) = (e_footprint (entry s i) = footprint_missed)"
  shows "lookup_entry_by_order t (Some c) f = lookup_entry_by_order s (Some c) f"
proof -
  have "List.find (\<lambda>i. e_cpu (entry t i) = c \<and> e_footprint (entry t i) \<noteq> footprint_missed) [f..tot s - 1] =
      List.find (\<lambda>i. e_cpu (entry s i) = c \<and> e_footprint (entry s i) \<noteq> footprint_missed) [f..tot s - 1]"
    by (rule find_cong) (use assms(2) in \<open>auto simp: skelD [OF assms(1)]\<close>)
  then show ?thesis
    by (simp add: lookup_entry_by_order_def skelD [OF assms(1)])
qed

lemma first_own_cong:
  assumes "skel t = skel s" and "\<And>i. e_cpu (entry s i) = c \<Longrightarrow> f \<le> i \<Longrightarrow>
      (e_footprint (entry t i) = footprint_missed) = (e_footprint (entry s i) = footprint_missed)"
  shows "first_own t c f = first_own s c f"
proof -
  have "lookup_entry_by_order t (Some c) f = lookup_entry_by_order s (Some c) f"
    by (rule lookup_cong [OF assms])
  then show ?thesis
    by (simp add: order_or_end_def skelD [OF assms(1)] split: option.split)
qed

lemma first_own_self:
  assumes "glob s" and "own s c i" and "c \<noteq> 0" and "e_footprint (entry s i) \<noteq> footprint_missed"
  shows "first_own s c i = i"
  using lookup_self [OF assms] own_glob(3) [OF assms(1-3)] by (simp add: order_or_end_def)

lemma first_own_skip:
  assumes "i < tot s" and "tot s \<le> MAX_SCHEDPOINTS"
    and "e_cpu (entry s i) \<noteq> c \<or> e_footprint (entry s i) = footprint_missed"
  shows "first_own s c i = first_own s c (i + 1)"
  using assms by (auto simp: lookup_entry_by_order_def END_OF_SCHEDPOINT_WINDOW_def upto_rec1)

lemma cursor_first_own:
  assumes "glob s" and "cursor s c" and "c \<noteq> 0"
  shows "w_from (window s c) = first_own s c (w_from (window s c))"
proof (cases "w_from (window s c) = END_OF_SCHEDPOINT_WINDOW")
  case True
  then show ?thesis by (simp add: order_or_end_def)
next
  case False
  then show ?thesis
    using first_own_self [OF assms(1) _ assms(3)] assms(2) by (simp add: cursor_def)
qed

lemma cursor_from_nonneg: "cursor s c \<Longrightarrow> 0 \<le> w_from (window s c)"
  by (auto simp: cursor_def own_def END_OF_SCHEDPOINT_WINDOW_def MAX_SCHEDPOINTS_def)

end
