(* ===== verification/Shrink_Inv.thy ===== *)
theory Shrink_Inv
  imports Window_Inv
begin

text \<open>
  Shrinking, pruning, cleaning up and closing a window keep the invariant and do not end the process.
\<close>

section \<open>Shrinking\<close>

text \<open>The window of another CPU moves its cursor past the entry.\<close>

definition moved :: "int \<Rightarrow> qstate \<Rightarrow> qstate \<Rightarrow> bool" where
  "moved d s t \<longleftrightarrow> only d s t \<and> core t d \<and> marks t d \<and> cursor t d \<and> (\<forall>i. entry t i = entry s i) \<and>
     w_total (window t d) = w_total (window s d)"

lemma moved_trans: "moved d s t \<Longrightarrow> moved d t u \<Longrightarrow> moved d s u"
  by (auto simp: moved_def intro: only_trans)

text \<open>
  Moving \<^verbatim>\<open>from\<close> to the next entry of the CPU, and \<^verbatim>\<open>until\<close> along with it. The entry
  at the old \<^verbatim>\<open>from\<close> may already carry any footprint.
\<close>

definition advance :: "int \<Rightarrow> int \<Rightarrow> qstate \<Rightarrow> qstate" where
  "advance d n s = upd_window d (\<lambda>x. x\<lparr>w_from := n, w_until := max n (w_until x)\<rparr>) s"

lemma cursor_advance:
  assumes "glob s" and "d \<noteq> 0" and "0 \<le> w_from (window s d)" and "w_from (window s d) \<le> w_until (window s d)"
    and "w_until (window s d) \<le> END_OF_SCHEDPOINT_WINDOW" and "left_ok s d (w_from (window s d) + 1)"
    and ahead: "\<And>i. own s d i \<Longrightarrow> w_from (window s d) < i \<Longrightarrow>
      e_footprint (entry s i) \<in> {footprint_preserved, footprint_missed}"
    and "w_from (window s d) < END_OF_SCHEDPOINT_WINDOW"
    and "cpu_state (sched s) d = qcsched_cpu_activated \<Longrightarrow> w_total (window s d) \<noteq> 0"
  defines "n \<equiv> first_own s d (w_from (window s d) + 1)"
  shows "cursor (advance d n s) d" "w_from (window (advance d n s) d) = n"
    "only d s (advance d n s)" "core (advance d n s) d = core s d" "marks (advance d n s) d = marks s d"
    "entry (advance d n s) i = entry s i" "w_total (window (advance d n s) d) = w_total (window s d)"
    "installed_on (advance d n s) d = installed_on s d"
proof -
  note n = order_or_end_lookup [OF assms(1) _ assms(2), of "w_from (window s d) + 1", folded n_def]
  show "cursor (advance d n s) d"
    using n assms(3-9) by (fastforce simp: cursor_def left_ok_def advance_def)
qed (simp_all add: advance_def core_upd_window assms(2))

lemma shrink_tail:
  assumes "w_cpu (window s d) = d" and "d \<in> set (cpus s)"
  shows "(let cpu0 = qemu_get_cpu s (w_cpu (window s d));
       next = lookup_entry_by_order s cpu0 (w_from (window s d) + 1);
       s = upd_window d (\<lambda>x. x\<lparr>w_from := order_or_end s next\<rparr>) s
    in if w_from (window s d) > w_until (window s d)
       then Ok (upd_window d (\<lambda>x. x\<lparr>w_until := w_from x\<rparr>) s) else Ok s) =
    Ok (advance d (first_own s d (w_from (window s d) + 1)) s)"
  using assms by (auto simp: advance_def upd_window_def max_def qemu_get_cpu_def Let_def)

lemma do_shrink_remote_spec:
  assumes "glob s" and "core s d" and "marks s d" and "cursor s d" and "own s d e" and "d \<noteq> c" and "d \<noteq> 0"
    and "e \<le> w_from (window s d)"
  shows "res_spec b (\<lambda>t. moved d s t \<and> w_from (window t d) =
      (if e < w_from (window s d) then w_from (window s d) else first_own s d (w_from (window s d) + 1)))
    (do_shrink_entry s c d e)"
proof -
  define n where "n = w_from (window s d)"
  have cu: "n \<le> w_until (window s d)" "w_until (window s d) \<le> END_OF_SCHEDPOINT_WINDOW" "left_ok s d n"
    "n \<noteq> END_OF_SCHEDPOINT_WINDOW \<Longrightarrow> own s d n" "0 \<le> n"
    "\<And>i. own s d i \<Longrightarrow> n \<le> i \<Longrightarrow> e_footprint (entry s i) \<in> {footprint_preserved, footprint_missed}"
    using assms(4) cursor_from_nonneg [OF assms(4)] by (auto simp: cursor_def n_def)
  have "res_spec b (\<lambda>t. only d s t \<and> core t d \<and> (\<forall>i. entry t i = entry s i) \<and> w_from (window t d) = n \<and>
      w_until (window t d) = w_until (window s d) \<and> w_total (window t d) = w_total (window s d) \<and>
      left_ok t d (max n (e + 1)))
    (if installed (entry s e) then qcsched_window_deactivate_entry s c d e else Ok s)"
    using deactivate_remote_spec [OF assms(2,5,6,7,1,3) cu(3), of b] assms(2) cu(3)
    by (auto simp: n_def left_ok_def)
  then show ?thesis
    unfolding do_shrink_entry_def
  proof (rule res_spec_bind, goal_cases)
    case (1 t)
    then have sk: "skel t = skel s"
      by (auto dest: only_skel)
    have g: "glob t" "own t d e" "d \<in> set (cpus t)" "w_cpu (window t d) = d" "e_order (entry t e) = e"
      using 1 assms own_glob [OF assms(1,5,7)]
      by (auto simp: glob_skel [OF sk] own_skel [OF sk] skelD [OF sk] core_def)
    have mt: "marks t d"
      using assms(3) 1 by (simp add: marks_def installed_on_def own_skel [OF sk])
    have same: "first_own t d f = first_own s d f" for f
      by (rule first_own_cong [OF sk]) (use 1 in simp)
    show ?case
    proof (cases "e < n")
      case True
      then have "left_ok t d n"
        using 1 by (simp add: max_absorb1)
      then have "cursor t d"
        using assms(4) 1 by (simp add: cursor_def n_def own_skel [OF sk] skelD [OF sk])
      then show ?thesis
        using True 1 g(5) cu(1) mt by (auto simp: moved_def n_def intro!: spec_rules)
    next
      case False
      have lt: "w_from (window t d) < END_OF_SCHEDPOINT_WINDOW" "0 \<le> w_from (window t d)" and e: "e = n"
        using False assms(8) g(2) 1 by (auto simp: own_def END_OF_SCHEDPOINT_WINDOW_def n_def)
      have tt: "cpu_state (sched t) d = qcsched_cpu_activated \<Longrightarrow> w_total (window t d) \<noteq> 0"
        using assms(4) 1 lt by (auto simp: cursor_def skelD [OF sk] n_def)
      note adv = cursor_advance [OF g(1) assms(7) lt(2) _ _ _ _ lt(1) tt]
      have "moved d t (advance d (first_own t d (n + 1)) t)"
        "w_from (window (advance d (first_own t d (n + 1)) t) d) = first_own t d (n + 1)"
        using adv 1 cu mt e by (auto simp: moved_def own_skel [OF sk])
      then show ?thesis
        using 1 e g(5) mt moved_trans unfolding shrink_tail [OF g(4,3)]
        by (auto simp: same moved_def n_def intro: only_trans)
    qed
  qed
qed

lemma shrink_before_remote_spec:
  assumes "glob s" and "core s d" and "marks s d" and "cursor s d" and "own s d e" and "d \<noteq> c" and "d \<noteq> 0"
    and "e_footprint (entry s e) \<noteq> footprint_missed" and "w_from (window s d) < e"
  shows "res_spec b (\<lambda>t. moved d s t \<and> w_from (window t d) = e) (qcsched_window_shrink_before_entry s c d e)"
proof -
  have e: "e_order (entry s e) = e" "e < tot s" "tot s \<le> MAX_SCHEDPOINTS"
    using own_glob [OF assms(1,5,7)] assms(1) by (auto simp: glob_def)
  note from0 = cursor_from_nonneg [OF assms(4)]
  define I where "I i t \<longleftrightarrow> moved d s t \<and> w_from (window t d) = first_own s d i" for i t
  have "res_spec b (I e) (foreach [w_from (window s d)..e - 1]
      (\<lambda>i t. if e_cpu (entry t i) \<noteq> w_cpu (window t d) then Ok t else do_shrink_entry t c d i) s)"
  proof (rule foreach_upto_spec)
    show "I (w_from (window s d)) s"
      using assms cursor_first_own [OF assms(1,4,7)] by (simp add: I_def moved_def)
    show "w_from (window s d) \<le> e" using assms(9) by simp
  next
    fix i t
    assume i: "w_from (window s d) \<le> i" "i < e" and I: "I i t"
    then have sk: "skel t = skel s" and m: "moved d s t" "\<And>i. entry t i = entry s i"
      and w: "core t d" "marks t d" "cursor t d" "w_from (window t d) = first_own s d i"
      by (auto simp: I_def moved_def dest: only_skel)
    have skip: "first_own s d i = first_own s d (i + 1)"
      if "e_cpu (entry s i) \<noteq> d \<or> e_footprint (entry s i) = footprint_missed"
      using first_own_skip [of i s d] that e i by simp
    have wc: "w_cpu (window t d) = d" using w(1) by (simp add: core_def)
    show "res_spec b (I (i + 1)) (if e_cpu (entry t i) \<noteq> w_cpu (window t d) then Ok t else do_shrink_entry t c d i)"
    proof (cases "e_cpu (entry s i) = d")
      case False
      then show ?thesis using I skip m(2) wc by (simp add: I_def)
    next
      case True
      then have own: "own s d i"
        using i e from0 by (simp add: own_def)
      then have own_t: "own t d i"
        by (simp add: own_skel [OF sk])
      have gt: "glob t" using assms(1) glob_skel [OF sk] by simp
      have same: "first_own t d f = first_own s d f" for f
        by (rule first_own_cong [OF sk]) (simp add: m(2))
      have "i \<le> w_from (window t d) \<and>
        (if i < w_from (window t d) then w_from (window t d) else first_own t d (w_from (window t d) + 1))
          = first_own s d (i + 1)"
      proof (cases "e_footprint (entry s i) = footprint_missed")
        case True
        have "i + 1 \<le> first_own s d (i + 1)"
          by (rule order_or_end_lookup(2) [OF assms(1) _ assms(7)])
            (use i e from0 in \<open>auto simp: END_OF_SCHEDPOINT_WINDOW_def\<close>)
        then show ?thesis using w(4) skip True by simp
      next
        case False
        then show ?thesis using w(4) first_own_self [OF assms(1) own assms(7)] same by simp
      qed
      then show ?thesis
        using True m(2) wc res_spec_mono [OF do_shrink_remote_spec [OF gt w(1-3) own_t assms(6,7), of b]]
          moved_trans [OF m(1)] by (simp add: I_def)
    qed
  qed
  then show ?thesis
    unfolding qcsched_window_shrink_before_entry_def e(1)
    by (rule res_spec_bind)
      (use first_own_self [OF assms(1,5,7,8)] e(1) in \<open>auto simp: I_def moved_def intro!: spec_rules\<close>)
qed

lemma shrink_entry_remote_spec:
  assumes "glob s" and "core s d" and "marks s d" and "cursor s d" and "own s d e" and "d \<noteq> c" and "d \<noteq> 0"
    and "e_footprint (entry s e) \<noteq> footprint_missed"
  shows "res_spec b (moved d s) (qcsched_window_shrink_entry s c d e)"
proof -
  let ?to = "\<lambda>t. moved d s t \<and> e \<le> w_from (window t d)"
  have e: "e_order (entry s e) = e" "e_cpu (entry s e) = d" "w_cpu (window s d) = d"
    using own_glob [OF assms(1,5,7)] assms(2,5) by (auto simp: core_def own_def)
  have "res_spec b ?to (if e_order (entry s e) > w_from (window s d)
       then qcsched_window_shrink_before_entry s c d e else Ok s)"
    using e assms(2-4) res_spec_mono [OF shrink_before_remote_spec [OF assms], where Q = ?to]
    by (simp add: moved_def)
  then have "res_spec b (moved d s) (res_bind (if e_order (entry s e) > w_from (window s d)
       then qcsched_window_shrink_before_entry s c d e else Ok s) (\<lambda>s. do_shrink_entry s c d e))"
  proof (rule res_spec_bind)
    fix t
    assume to: "?to t"
    then have t: "moved d s t" by simp
    then have sk: "skel t = skel s"
      by (auto simp: moved_def dest: only_skel)
    have "res_spec b (moved d t) (do_shrink_entry t c d e)"
      by (rule res_spec_mono [OF do_shrink_remote_spec [OF _ _ _ _ _ assms(6,7)]])
        (use to assms in \<open>auto simp: moved_def glob_skel [OF sk] own_skel [OF sk]\<close>)
    then show "res_spec b (moved d s) (do_shrink_entry t c d e)"
      by (rule res_spec_mono) (rule moved_trans [OF t])
  qed
  then show ?thesis
    using e by (simp add: qcsched_window_shrink_entry_def)
qed

text \<open>
  On its own CPU the entry at \<^verbatim>\<open>from\<close> is removed; its footprint has been left before, so the
  invariant need not hold for it.
\<close>

definition shrinkable :: "qstate \<Rightarrow> int \<Rightarrow> int \<Rightarrow> bool" where
  "shrinkable s c e \<longleftrightarrow> glob s \<and> core s c \<and> c \<noteq> 0 \<and> own s c e \<and> w_from (window s c) = e \<and>
     (\<forall>i\<in>installed_on s c - {e}. e_footprint (entry s i) = footprint_preserved) \<and>
     (\<forall>i. own s c i \<and> e < i \<longrightarrow> e_footprint (entry s i) \<in> {footprint_preserved, footprint_missed}) \<and>
     e \<le> w_until (window s c) \<and> w_until (window s c) \<le> END_OF_SCHEDPOINT_WINDOW \<and>
     left_ok s c e \<and>
     (cpu_state (sched s) c = qcsched_cpu_activated \<longrightarrow> w_total (window s c) \<noteq> 0)"

lemma shrink_entry_local_spec:
  assumes sh: "shrinkable s c e" and "b \<Longrightarrow> io_ok s" and "b \<Longrightarrow> current_cpu s = c"
  shows "res_spec b (\<lambda>t. only c s t \<and> core t c \<and> marks t c \<and> cursor t c \<and> same_footprints s t \<and>
      installed_on t c = installed_on s c - {e} \<and> w_total (window t c) = w_total (window s c) \<and>
      w_from (window t c) = first_own s c (e + 1))
    (qcsched_window_shrink_entry s c c e)"
proof -
  have a: "glob s" "core s c" "c \<noteq> 0" "own s c e" "w_from (window s c) = e"
    using sh by (auto simp: shrinkable_def)
  note og = own_glob [OF a(1,4,3)]
  have e: "e_cpu (entry s e) = c" "w_cpu (window s c) = c"
    using a by (auto simp: own_def core_def)
  have "res_spec b (\<lambda>t. only c s t \<and> core t c \<and> same_footprints s t \<and>
      installed_on t c = installed_on s c - {e} \<and> same_cursors s t c)
    (if installed (entry s e) then qcsched_window_deactivate_entry s c c e else Ok s)"
    using res_spec_mono [OF deactivate_local_spec [OF a(2,4) assms(2,3)]] a(2) by (auto simp: installed_on_def)
  then have "res_spec b (\<lambda>t. only c s t \<and> core t c \<and> marks t c \<and> cursor t c \<and> same_footprints s t \<and>
      installed_on t c = installed_on s c - {e} \<and> w_total (window t c) = w_total (window s c) \<and>
      w_from (window t c) = first_own s c (e + 1)) (do_shrink_entry s c c e)"
    unfolding do_shrink_entry_def
  proof (rule res_spec_bind, goal_cases)
    case (1 t)
    then have sk: "skel t = skel s" by (auto dest: only_skel)
    have gt: "glob t" "e_order (entry t e) = e" "c \<in> set (cpus t)" "w_cpu (window t c) = c"
      using a(1) og 1 by (auto simp: glob_skel [OF sk] skelD [OF sk] core_def)
    have eq: "first_own t c f = first_own s c f" for f
      by (rule first_own_cong [OF sk]) (use 1 in simp)
    have lt: "w_from (window t c) < END_OF_SCHEDPOINT_WINDOW" "0 \<le> w_from (window t c)"
      using a(4,5) 1 by (auto simp: own_def END_OF_SCHEDPOINT_WINDOW_def)
    note adv = cursor_advance [OF gt(1) a(3) lt(2) _ _ _ _ lt(1)]
    have lo: "left_ok t c (e + 1)"
      using sh 1 by (auto simp: left_ok_def shrinkable_def own_skel [OF sk])
    have "marks t c"
      using sh 1 by (auto simp: marks_def shrinkable_def)
    then show ?case
      unfolding shrink_tail [OF gt(4,3)]
      using 1 lo a(5) gt(2) adv only_trans [of c s t] sh
      by (simp add: eq shrinkable_def own_skel [OF sk] skelD [OF sk])
  qed
  then show ?thesis
    using a(5) og(3) e by (simp add: qcsched_window_shrink_entry_def)
qed

end
