(* ===== verification/Close_Inv.thy ===== *)
theory Close_Inv
  imports Shrink_Inv
begin

text \<open>
  Leaving footprints, closing a window, pruning what a CPU missed, and cleaning up what was left
  behind: the operations keep the invariant and do not end the process.
\<close>

section \<open>Footprints\<close>

lemma leave_footprint_at_simps:
  fixes s c fp order
  defines "t \<equiv> qcsched_window_leave_footprint_at s c fp order"
  shows "only c s t" and "window t = window s" and "hw_breakpoint t = hw_breakpoint s"
    and "installed (entry t i) = installed (entry s i)" and "installed_on t d = installed_on s d"
    and "e_footprint (entry t i) = (if i = order \<and> order < tot s \<and> e_cpu (entry s order) = c
      then (if e_addr (entry s i) = QCSCHED_DUMMY_BREAKPOINT then footprint_hit else fp)
      else e_footprint (entry s i))"
    and "core t d = core s d" and "hw_addrs t d = hw_addrs s d"
proof -
  have sk: "skel t = skel s"
    by (simp add: t_def qcsched_window_leave_footprint_at_def Let_def)
  show "only c s t" and w: "window t = window s" and h: "hw_breakpoint t = hw_breakpoint s"
    using sk by (auto simp: only_def t_def qcsched_window_leave_footprint_at_def Let_def upd_entry_def)
  show hw: "hw_addrs t d = hw_addrs s d" for d
    using hw_cong [of t d s] h by auto
  have wf: "hw_wf t d = hw_wf s d"
    using hw_cong [of t d s] h by auto
  show inst: "installed (entry t i) = installed (entry s i)" for i
    by (simp add: t_def qcsched_window_leave_footprint_at_def Let_def upd_entry_def)
  show ion: "installed_on t d = installed_on s d" for d
    by (simp add: installed_on_def inst own_skel [OF sk])
  show "e_footprint (entry t i) = (if i = order \<and> order < tot s \<and> e_cpu (entry s order) = c
      then (if e_addr (entry s i) = QCSCHED_DUMMY_BREAKPOINT then footprint_hit else fp)
      else e_footprint (entry s i))"
    by (auto simp: t_def qcsched_window_leave_footprint_at_def Let_def upd_entry_def)
  show "core t d = core s d"
    by (simp add: core_def w hw wf ion skelD [OF sk])
qed

section \<open>Closing\<close>

text \<open>The footprint an entry of the closing CPU ends with.\<close>

definition close_fp :: "qstate \<Rightarrow> int \<Rightarrow> qcschedpoint_footprint" where
  "close_fp s i =
     (if e_footprint (entry s i) \<noteq> footprint_preserved then e_footprint (entry s i)
      else if e_addr (entry s i) = QCSCHED_DUMMY_BREAKPOINT then footprint_hit
      else if installed (entry s i) then footprint_missed else footprint_not_addressed)"

definition closing :: "qstate \<Rightarrow> int \<Rightarrow> int \<Rightarrow> qstate \<Rightarrow> bool" where
  "closing s c n t \<longleftrightarrow> only c s t \<and> core t c \<and> same_cursors s t c \<and>
     (\<forall>i. e_footprint (entry t i) =
        (if 0 \<le> i \<and> i < n \<and> e_cpu (entry s i) = c then close_fp s i else e_footprint (entry s i))) \<and>
     installed_on t c = {i\<in>installed_on s c. n \<le> i} \<and> hw_addrs t c \<subseteq> hw_addrs s c"

lemma close_one_spec:
  assumes "tot s \<le> MAX_SCHEDPOINTS" and "marks s c" and "0 \<le> i" and "i < tot s" and I: "closing s c i t"
    and "b \<Longrightarrow> io_ok s" and "b \<Longrightarrow> current_cpu s = c"
  shows "res_spec b (closing s c (i + 1)) (close_one c i t)"
proof (cases "e_cpu (entry s i) = c")
  case False
  then have "i \<notin> installed_on s c"
    by (simp add: installed_on_def own_def)
  then have "{j\<in>installed_on s c. i \<le> j} = {j\<in>installed_on s c. i + 1 \<le> j}"
    by (metis (mono_tags, lifting) add1_zle_eq order_le_less)
  moreover have "e_cpu (entry t i) \<noteq> c"
    using False I skelD(24) [of t s i] by (auto simp: closing_def dest: only_skel)
  ultimately show ?thesis
    using I False by (auto simp: close_one_def closing_def less_le)
next
  case True
  have sk: "skel t = skel s" and on: "only c s t" and co: "core t c"
    using I by (auto simp: closing_def dest: only_skel)
  have own: "own s c i"
    using True assms(1,3,4) by (simp add: own_def)
  have fp: "e_footprint (entry t i) = e_footprint (entry s i)" and inst: "installed (entry t i) = installed (entry s i)"
    using I own own_skel [OF sk, of c i] by (auto simp: closing_def installed_on_def)
  have out: "{j\<in>installed_on s c. i \<le> j} - {i} = {j\<in>installed_on s c. i + 1 \<le> j}"
    by auto
  show ?thesis
  proof (cases "e_footprint (entry s i) = footprint_preserved")
    case False
    then have "i \<notin> installed_on s c"
      using assms(2) by (auto simp: marks_def)
    then show ?thesis
      using I False True fp out assms(3) by (auto simp: close_one_def closing_def close_fp_def less_le skelD [OF sk])
  next
    case pres: True
    let ?u = "\<lambda>f. qcsched_window_leave_footprint_at t c f i"
    note lf = leave_footprint_at_simps [where s = t and c = c and order = i]
    have sku: "skel (?u f) = skel s" for f
      using only_skel [OF lf(1)] sk by simp
    show ?thesis
    proof (cases "installed (entry s i)")
      case False
      then have "i \<notin> installed_on s c"
        by (simp add: installed_on_def)
      then show ?thesis
        using I False True pres fp inst assms(3,4) lf(2,5-8) only_trans [OF on lf(1)] out
        by (auto simp: close_one_def closing_def close_fp_def less_le skelD [OF sk])
    next
      case armed: True
      have pre: "core (?u footprint_missed) c" "own (?u footprint_missed) c i"
        using co lf(7) own by (simp_all add: own_skel [OF sku])
      have "res_spec b (closing s c (i + 1)) (qcsched_window_deactivate_entry (?u footprint_missed) c c i)"
        by (rule res_spec_mono [OF deactivate_local_spec [OF pre]])
          (use assms(3,4,6,7) I armed True pres lf(2,5,6,8) only_trans [OF only_trans [OF on lf(1)]] out in
            \<open>auto simp: closing_def close_fp_def less_le skelD [OF sk] skelD [OF sku] io_ok_skel [OF sku]\<close>)
      then show ?thesis
        using armed True pres fp inst by (simp add: close_one_def Let_def skelD [OF sk])
    qed
  qed
qed

definition closed_by :: "int \<Rightarrow> qstate \<Rightarrow> qstate \<Rightarrow> bool" where
  "closed_by c s t \<longleftrightarrow> only c s t \<and> core t c \<and> installed_on t c = {} \<and> closed_window t c \<and>
     hw_addrs t c \<subseteq> hw_addrs s c \<and>
     (\<forall>i. e_footprint (entry t i) =
        (if 0 \<le> i \<and> i < tot s \<and> e_cpu (entry s i) = c then close_fp s i else e_footprint (entry s i)))"

lemma close_window_spec:
  assumes "glob s" and "core s c" and "marks s c" and "b \<Longrightarrow> io_ok s" and "b \<Longrightarrow> current_cpu s = c"
  shows "res_spec b (closed_by c s) (qcsched_window_close_window s c)"
proof -
  have t: "0 \<le> tot s" "tot s \<le> MAX_SCHEDPOINTS"
    using assms(1) by (auto simp: glob_def)
  have "closing s c 0 s"
    using assms(2) by (auto simp: closing_def installed_on_def own_def)
  then have "res_spec b (closing s c (tot s)) (foreach [0..tot s - 1] (close_one c) s)"
    using foreach_upto_spec [of "closing s c" 0 s "tot s" b "close_one c"]
      close_one_spec [OF t(2) assms(3)] t(1) assms(4,5) by auto
  then show ?thesis
    unfolding qcsched_window_close_window_def
  proof (rule res_spec_bind, goal_cases)
    case (1 u)
    have none: "{i\<in>installed_on s c. tot s \<le> i} = {}"
      using assms(1,2) own_glob(2) [OF assms(1)] by (cases "c = 0") (force simp: core_def installed_on_def)+
    let ?v = "upd_window c (\<lambda>x. x\<lparr>w_from := END_OF_SCHEDPOINT_WINDOW, w_until := END_OF_SCHEDPOINT_WINDOW,
      w_left_behind := END_OF_SCHEDPOINT_WINDOW, w_total := 0\<rparr>) u"
    have u: "only c s u" "core u c" "installed_on u c = {}" "hw_addrs u c \<subseteq> hw_addrs s c"
      "\<forall>i. e_footprint (entry u i) =
        (if 0 \<le> i \<and> i < tot s \<and> e_cpu (entry s i) = c then close_fp s i else e_footprint (entry s i))"
      using 1 none by (auto simp: closing_def)
    have act: "w_activated (window u c) = 0"
      using u(2,3) by (simp add: core_def)
    then have "closed_by c s ?v"
      using u only_trans [OF u(1) upd_window_only] by (simp add: closed_by_def closed_window_def core_def)
    then show ?case
      using act by (simp add: Let_def)
  qed
qed

lemma closed_by_fp: "closed_by c s t \<Longrightarrow> own s c i \<Longrightarrow> i < tot s \<Longrightarrow> e_footprint (entry t i) \<noteq> footprint_preserved"
  by (auto simp: closed_by_def close_fp_def own_def)

lemma closed_by_win:
  assumes "closed_by c s t" and "quiet s c"
    and "cpu_state (sched s) c \<notin> {qcsched_cpu_idle, qcsched_cpu_ready}"
  shows "win t c"
proof -
  have sk: "skel t = skel s"
    using assms(1) by (auto simp: closed_by_def dest: only_skel)
  have "cursor t c"
    using assms(1) by (auto simp: closed_by_def cursor_def left_ok_def closed_window_def own_def
        END_OF_SCHEDPOINT_WINDOW_def MAX_SCHEDPOINTS_def)
  moreover have "quiet t c"
    using assms by (auto simp: quiet_def closed_by_def skelD [OF sk])
  ultimately show ?thesis
    using assms(1) by (simp add: win_def closed_by_def marks_def)
qed

text \<open>Handing the debug registers to KVM changes nothing the invariant speaks of.\<close>

lemma kvm_update_inv:
  assumes "kvm_update_guest_debug t c r = (e, u)"
  shows "only d t u" and "sched u = sched t" and "hw_breakpoint u = hw_breakpoint t"
    and "core u d = core t d" and "installed_on u d = installed_on t d" and "closed_window u d = closed_window t d"
    and "hw_addrs u d = hw_addrs t d" and "io_ok t \<Longrightarrow> e = 0"
proof -
  note f = kvm_update_guest_debug_frame [OF assms]
  note sk = kvm_frame_skel [OF conjunct1 [OF f]]
  show sc: "sched u = sched t" and hw: "hw_breakpoint u = hw_breakpoint t"
    using f kvm_frame_simps(1) by auto
  then show "only d t u"
    using sk by (simp add: only_def)
  show a: "hw_addrs u d = hw_addrs t d" for d
    using hw_cong [of u d t] hw by auto
  have "hw_wf u d = hw_wf t d"
    using hw_cong [of u d t] hw by auto
  with a show "core u d = core t d"
    by (simp add: core_def sc installed_on_def own_def skelD(10) [OF sk])
  show "installed_on u d = installed_on t d" "closed_window u d = closed_window t d"
    by (simp_all add: installed_on_def own_def closed_window_def sc)
  show "io_ok t \<Longrightarrow> e = 0"
    using assms by (auto simp: kvm_update_guest_debug_def io_ok_def Let_def)
qed

lemma close_and_update_spec:
  assumes "glob s" and "core s c" and "marks s c" and "b \<Longrightarrow> io_ok s" and "b \<Longrightarrow> current_cpu s = c"
  shows "res_spec b (closed_by c s) (close_and_update s c)"
  unfolding close_and_update_def
proof (rule res_spec_bind [OF close_window_spec [OF assms]], goal_cases)
  case (3 t)
  obtain e u where u: "kvm_update_guest_debug t c 0 = (e, u)"
    by fastforce
  note ku = kvm_update_inv [OF u]
  have sk: "skel t = skel s"
    using 3 by (auto simp: closed_by_def dest: only_skel)
  have "closed_by c s u"
    using 3 ku(2,4-7) only_trans [OF _ ku(1)] by (simp add: closed_by_def)
  then show ?case
    using u ku(8) assms(4) by (auto simp: io_ok_skel [OF sk] intro!: spec_rules)
qed

end
