(* ===== verification/Prune_Inv.thy ===== *)
theory Prune_Inv
  imports Close_Inv
begin

text \<open>
  Following the focus of the schedule: synchronising a window, cleaning up what was left behind,
  and pruning the scheduling points that were missed.
\<close>

section \<open>Synchronising\<close>

lemma sync_spec:
  assumes "glob s" and "win s c" and "c \<noteq> 0"
    and "cpu_state (sched s) c \<notin> {qcsched_cpu_idle, qcsched_cpu_ready}"
  defines "t \<equiv> qcsched_window_sync s c"
  shows "only c s t" and "win t c" and "entry t i = entry s i" and "hw_addrs t c = hw_addrs s c"
    and "w_from (window s c) \<le> w_from (window t c)"
proof -
  have w: "core s c" "marks s c" "cursor s c" "quiet s c"
    using assms(2,3) by (auto simp: win_def)
  have "only c s t \<and> win t c \<and> entry t i = entry s i \<and> hw_addrs t c = hw_addrs s c \<and>
      w_from (window s c) \<le> w_from (window t c)"
  proof (cases "current (sched s) \<le> w_from (window s c)")
    case True
    then show ?thesis
      using assms(2) by (simp add: t_def qcsched_window_sync_def)
  next
    case False
    define n where "n = first_own s c (current (sched s))"
    have cur: "0 \<le> current (sched s)" "current (sched s) \<le> END_OF_SCHEDPOINT_WINDOW"
      "w_from (window s c) \<noteq> END_OF_SCHEDPOINT_WINDOW"
      using False assms(1) by (auto simp: glob_def END_OF_SCHEDPOINT_WINDOW_def)
    then have act: "cpu_state (sched s) c = qcsched_cpu_activated"
      using assms(4) w(4) by (cases "cpu_state (sched s) c") (auto simp: quiet_def closed_window_def)
    note n = order_or_end_lookup [OF assms(1) cur(1) assms(3), folded n_def]
    define left where "left = w_from (window s c)"
    have t: "t = upd_window c (\<lambda>x. x\<lparr>w_from := n, w_until := (if w_until x < n then n else w_until x),
        w_left_behind := (if left < w_left_behind x then left else w_left_behind x)\<rparr>) s"
      unfolding t_def qcsched_window_sync_def Let_def n_def left_def using False by simp
    have "cursor t c"
      using w(3) n cur False by (auto simp: t cursor_def left_ok_def left_def)
    moreover have "core t c" "marks t c"
      using w(1,2) assms(3) by (simp_all add: t core_upd_window)
    moreover have "quiet t c"
      by (rule quiet_activated [OF w(4) _ act]) (simp add: t)
    ultimately show ?thesis
      using n(2) cur False by (simp add: win_def t)
  qed
  then show "only c s t" "win t c" "entry t i = entry s i" "hw_addrs t c = hw_addrs s c"
    "w_from (window s c) \<le> w_from (window t c)"
    by auto
qed

section \<open>Cleaning up\<close>

definition cleaned :: "int \<Rightarrow> qstate \<Rightarrow> qstate \<Rightarrow> bool" where
  "cleaned c s t \<longleftrightarrow> only c s t \<and> core t c \<and> marks t c \<and> cursor t c \<and> same_cursors s t c \<and>
     hw_addrs t c \<subseteq> hw_addrs s c \<and>
     (\<forall>i. own s c i \<and> w_from (window s c) \<le> i \<longrightarrow> entry t i = entry s i)"

lemma cleaned_trans: "cleaned c s t \<Longrightarrow> cleaned c t u \<Longrightarrow> cleaned c s u"
  by (auto simp: cleaned_def own_skel [OF only_skel] intro: only_trans)

text \<open>One round of the loop on an installed entry.\<close>

lemma cleanup_one_spec:
  assumes "glob s" and "core s c" and "marks s c" and "cursor s c" and "c \<noteq> 0"
    and "own s c i" and "i < w_from (window s c)"
    and "b \<Longrightarrow> io_ok s" and "b \<Longrightarrow> current_cpu s = c"
  shows "res_spec b (cleaned c s)
    (qcsched_window_deactivate_entry (qcsched_window_leave_footprint_at s c footprint_dropped i) c c i)"
proof -
  let ?u = "qcsched_window_leave_footprint_at s c footprint_dropped i"
  note lf = leave_footprint_at_simps [where s = s and c = c and fp = footprint_dropped and order = i]
  note sku = only_skel [OF lf(1)]
  have "core ?u c" "own ?u c i"
    using assms(2,6) lf(7) by (auto simp: own_skel [OF sku])
  then show ?thesis
  proof (rule res_spec_mono [OF deactivate_local_spec], goal_cases)
    case (3 t)
    then have on: "only c s t" and sk: "skel t = skel s"
      using only_trans [OF lf(1)] sku by (auto dest: only_skel)
    have fp: "e_footprint (entry t j) = e_footprint (entry s j)" if "j \<noteq> i" for j
      using 3 lf(6) that by simp
    have i: "e_footprint (entry t i) \<noteq> footprint_missed"
      using 3 lf(6) [of i] assms(6) own_glob(2) [OF assms(1,6,5)] by (auto simp: own_def)
    have m: "marks t c"
      using assms(3) 3 lf(5,6) by (auto simp: marks_def)
    have ws: "same_cursors s t c"
      using 3 lf(2) by simp
    have cu: "cursor t c"
    proof -
      have miss: "e_footprint (entry t j) \<noteq> footprint_missed" if "e_footprint (entry s j) \<noteq> footprint_missed" for j
        using fp i that by (cases "j = i") auto
      have "e_footprint (entry t j) = e_footprint (entry s j)" if "w_from (window s c) \<le> j" for j
        using fp that assms(7) by simp
      then show ?thesis
        using assms(4) ws miss by (auto simp: cursor_def left_ok_def own_skel [OF sk] skelD [OF sk])
    qed
    have "entry t j = entry s j" if "own s c j" "w_from (window s c) \<le> j" for j
    proof -
      have "installed (entry t j) = installed (entry s j)"
        using 3 that assms(7) lf(5) own_skel [OF sk, of c j] by (auto simp: installed_on_def)
      then show ?thesis
        using fp [of j] that assms(7) skelD(22-25) [OF sk, of j]
        by (intro qcsched_entry.equality qcschedpoint.equality) auto
    qed
    then show ?case
      using 3 on m cu lf(2,8) by (simp add: cleaned_def)
  qed (use assms(8,9) in \<open>simp_all add: io_ok_skel [OF sku] skelD [OF sku]\<close>)
qed

lemma cleanup_loop_spec:
  assumes "glob s" and "core s c" and "marks s c" and "cursor s c" and "c \<noteq> 0"
    and "i < w_from (window s c) \<Longrightarrow> own s c i \<and> e_footprint (entry s i) \<noteq> footprint_missed"
    and "tot s - i < int fuel" and "0 < fuel"
    and "b \<Longrightarrow> io_ok s" and "b \<Longrightarrow> current_cpu s = c"
  shows "res_spec b (cleaned c s) (cleanup_loop fuel s c i)"
  using assms
proof (induction fuel arbitrary: s i)
  case 0
  then show ?case by simp
next
  case (Suc fuel)
  note pr = Suc.prems
  have refl: "cleaned c s s" using pr by (simp add: cleaned_def)
  show ?case
  proof (cases "i < w_from (window s c)")
    case False
    then show ?thesis using refl by simp
  next
    case True
    then have own: "own s c i" "e_footprint (entry s i) \<noteq> footprint_missed" using pr(6) by auto
    note i = own_glob [OF pr(1) own(1) pr(5)]
    let ?next = "\<lambda>s. case lookup_entry_by_order s (Some c) (e_order (entry s i) + 1) of None \<Rightarrow> Ok s
        | Some n \<Rightarrow> cleanup_loop fuel s c (e_order (entry s n))"
    have "res_spec b (cleaned c s) (if installed (entry s i) then qcsched_window_deactivate_entry
        (qcsched_window_leave_footprint_at s c footprint_dropped i) c c i else Ok s)"
      using cleanup_one_spec [OF pr(1-5) own(1) True pr(9,10)] refl by simp
    then have "res_spec b (cleaned c s) (res_bind (if installed (entry s i) then qcsched_window_deactivate_entry
        (qcsched_window_leave_footprint_at s c footprint_dropped i) c c i else Ok s) ?next)"
    proof (rule res_spec_bind)
      fix t
      assume t: "cleaned c s t"
      then have sk: "skel t = skel s" by (auto simp: cleaned_def dest: only_skel)
      have gt: "glob t" "e_order (entry t i) = i" using pr(1) i(3) by (simp_all add: glob_skel [OF sk] skelD [OF sk])
      show "res_spec b (cleaned c s) (?next t)"
      proof (cases "lookup_entry_by_order t (Some c) (i + 1)")
        case None
        then show ?thesis using t gt(2) by simp
      next
        case (Some n)
        note n = lookup_own [OF gt(1) Some _ pr(5)]
        have "res_spec b (cleaned c t) (cleanup_loop fuel t c n)"
          by (rule Suc.IH) (use t pr n i gt(1) in \<open>auto simp: cleaned_def io_ok_skel [OF sk] skelD [OF sk]\<close>)
        then show ?thesis
          using Some n(4) i(1) gt(2) by (auto elim!: res_spec_mono intro: cleaned_trans [OF t])
      qed
    qed
    then show ?thesis
      using True lookup_self [OF pr(1) own(1) pr(5) own(2)] by simp
  qed
qed

lemma cleanup_spec:
  assumes "glob s" and "win s c" and "c \<noteq> 0"
    and busy: "cpu_state (sched s) c \<notin> {qcsched_cpu_idle, qcsched_cpu_ready}"
    and "b \<Longrightarrow> io_ok s" and "b \<Longrightarrow> current_cpu s = c" and "b \<Longrightarrow> iothread_locked s"
  shows "res_spec b (\<lambda>t. only c s t \<and> win t c \<and> w_from (window t c) = w_from (window s c) \<and>
      hw_addrs t c \<subseteq> hw_addrs s c \<and> (\<forall>i. own s c i \<and> w_from (window s c) \<le> i \<longrightarrow> entry t i = entry s i))
    (qcsched_window_cleanup_left_schedpoint s c)"
proof -
  have w: "core s c" "marks s c" "cursor s c" "quiet s c"
    using assms(2,3) by (auto simp: win_def)
  let ?l = "w_left_behind (window s c)"
  have tot: "tot s \<le> MAX_SCHEDPOINTS"
    using assms(1) by (simp add: glob_def)
  have l: "?l < w_from (window s c) \<Longrightarrow> own s c ?l \<and> e_footprint (entry s ?l) \<noteq> footprint_missed"
    "0 \<le> ?l"
    using w(3) by (auto simp: cursor_def left_ok_def own_def END_OF_SCHEDPOINT_WINDOW_def MAX_SCHEDPOINTS_def)
  let ?P = "\<lambda>t. only c s t \<and> win t c \<and> w_from (window t c) = w_from (window s c) \<and>
      hw_addrs t c \<subseteq> hw_addrs s c \<and> (\<forall>i. own s c i \<and> w_from (window s c) \<le> i \<longrightarrow> entry t i = entry s i)"
  let ?fin = "upd_window c (\<lambda>x. x\<lparr>w_left_behind := END_OF_SCHEDPOINT_WINDOW\<rparr>)"
  have cu: "cursor (?fin t) c" if "cursor t c" for t
    using that by (auto simp: cursor_def left_ok_def)
  have "res_spec b ?P (res_bind (cleanup_loop (nat MAX_SCHEDPOINTS + 2) s c ?l) (\<lambda>s. Ok (?fin s)))"
  proof (cases "cpu_state (sched s) c = qcsched_cpu_deactivated")
    case True
    then have "closed_window s c"
      using w(4) by (simp add: quiet_def)
    then have "cleanup_loop (nat MAX_SCHEDPOINTS + 2) s c ?l = Ok s" and "quiet (?fin s) c"
      using w(4) by (auto simp: closed_window_def quiet_def)
    then show ?thesis
      using w cu assms(3) by (simp add: win_def core_upd_window)
  next
    case False
    then have act: "cpu_state (sched s) c = qcsched_cpu_activated"
      using busy by (cases "cpu_state (sched s) c") auto
    have "res_spec b (cleaned c s) (cleanup_loop (nat MAX_SCHEDPOINTS + 2) s c ?l)"
      by (rule cleanup_loop_spec [OF assms(1) w(1-3) assms(3)])
        (use l tot assms(5,6) in \<open>auto simp: MAX_SCHEDPOINTS_def\<close>)
    then show ?thesis
    proof (rule res_spec_bind, goal_cases)
      case (1 t)
      then have sk: "skel t = skel s" by (auto simp: cleaned_def dest: only_skel)
      have "quiet (?fin t) c"
        by (rule quiet_activated [OF w(4) _ act]) (simp add: sk)
      then show ?case
        using 1 cu assms(3) only_trans [OF _ upd_window_only] by (simp add: cleaned_def win_def core_upd_window)
    qed
  qed
  then show ?thesis
    unfolding qcsched_window_cleanup_left_schedpoint_def by (auto intro!: spec_rules simp: assms(7))
qed

section \<open>Pruning\<close>

lemma busy_cases:
  assumes "quiet s c" and "cpu_state (sched s) c \<notin> {qcsched_cpu_idle, qcsched_cpu_ready}"
    and "w_total (window s c) \<noteq> 0 \<or> w_from (window s c) \<noteq> END_OF_SCHEDPOINT_WINDOW"
  shows "cpu_state (sched s) c = qcsched_cpu_activated"
  using assms by (cases "cpu_state (sched s) c") (auto simp: quiet_def closed_window_def)

lemma entry_eqI:
  assumes "skel t = skel s" and "installed (entry t i) = installed (entry s i)"
    and "e_footprint (entry t i) = e_footprint (entry s i)"
  shows "entry t i = entry s i"
  using assms(2,3) skelD(22-25) [OF assms(1), of i]
  by (intro qcsched_entry.equality qcschedpoint.equality) auto

text \<open>Pruning an entry of another CPU moves that CPU's window only.\<close>

lemma prune_other_spec:
  assumes "sched_inv t" and "own t d i" and "d \<noteq> c" and "e_footprint (entry t i) \<noteq> footprint_missed"
    and "i < tot t"
  shows "res_spec b (\<lambda>u. sched_inv u \<and> only d t u \<and> (\<forall>j. entry u j = entry t j)) (prune_one c i t)"
proof (cases "w_total (window t d) = 0")
  case True
  then show ?thesis
    using assms by (simp add: prune_one_def qcsched_window_window_closed_def own_def)
next
  case False
  have zero: "d \<noteq> 0"
    using False assms(1) by (auto simp: sched_inv_def glob_def win_def core_def)
  have gl: "glob t" using assms(1) by (simp add: sched_inv_def)
  have d: "d \<in> set (cpus t)" "e_order (entry t i) = i"
    using own_glob [OF gl assms(2) zero] by auto
  have w: "core t d" "marks t d" "cursor t d" "quiet t d"
    using sched_invD(3) [OF assms(1) d(1)] zero by (auto simp: win_def)
  then have act: "cpu_state (sched t) d = qcsched_cpu_activated"
    using False by (cases "cpu_state (sched t) d") (auto simp: quiet_def closed_window_def)
  have leave: "qcsched_window_leave_footprint_at t c footprint_missed i = t"
    using assms(2,3) by (auto simp: qcsched_window_leave_footprint_at_def own_def)
  have "res_spec b (\<lambda>u. sched_inv u \<and> only d t u \<and> (\<forall>j. entry u j = entry t j))
      (qcsched_window_shrink_entry t c d i)"
  proof (rule res_spec_mono [OF shrink_entry_remote_spec [OF gl w(1-3) assms(2,3) zero assms(4)]])
    fix u
    assume u: "moved d t u"
    then have "quiet u d"
      using quiet_activated [OF w(4) _ act] by (auto simp: moved_def dest: only_skel)
    then have "win u d" using u by (simp add: win_def moved_def)
    then show "sched_inv u \<and> only d t u \<and> (\<forall>j. entry u j = entry t j)"
      using u sched_inv_only [OF assms(1)] by (auto simp: moved_def)
  qed
  then show ?thesis
    using assms(2,4) False d(2) leave by (simp add: prune_one_def qcsched_window_window_closed_def own_def Let_def)
qed

text \<open>Pruning the CPU's own entry at \<^verbatim>\<open>from\<close> marks it, removes it and moves on.\<close>

lemma prune_own_spec:
  assumes inv: "sched_inv t" and "own t c i" and "c \<noteq> 0" and fp: "e_footprint (entry t i) \<noteq> footprint_missed"
    and at: "w_from (window t c) = i"
    and busy: "cpu_state (sched t) c \<notin> {qcsched_cpu_idle, qcsched_cpu_ready}"
    and "b \<Longrightarrow> io_ok t" and "b \<Longrightarrow> current_cpu t = c"
  shows "res_spec b (\<lambda>u. sched_inv u \<and> only c t u \<and> w_from (window u c) = first_own u c (i + 1) \<and>
      (\<forall>j. own t c j \<and> j \<noteq> i \<longrightarrow> entry u j = entry t j)) (prune_one c i t)"
proof -
  have gl: "glob t" using inv by (simp add: sched_inv_def)
  note og = own_glob [OF gl assms(2,3)]
  have w: "core t c" "marks t c" "cursor t c" "quiet t c"
    using sched_invD(3) [OF inv og(5)] assms(3) by (auto simp: win_def)
  have act: "cpu_state (sched t) c = qcsched_cpu_activated"
    using busy_cases [OF w(4) busy] assms(2) at
    by (auto simp: own_def END_OF_SCHEDPOINT_WINDOW_def)
  let ?u = "qcsched_window_leave_footprint_at t c footprint_missed i"
  note lf = leave_footprint_at_simps [where s = t and c = c and fp = footprint_missed and order = i]
  note sku = only_skel [OF lf(1)]
  have fpu: "e_footprint (entry ?u j) = e_footprint (entry t j)" if "j \<noteq> i" for j
    using that lf(6) by simp
  have open_w: "w_total (window t c) \<noteq> 0"
    using w(3) act at assms(2) by (auto simp: cursor_def own_def END_OF_SCHEDPOINT_WINDOW_def)
  have "shrinkable ?u c i"
    using gl w assms(2,3) at open_w lf(2,5,7) fpu
    by (auto simp: shrinkable_def glob_skel [OF sku] own_skel [OF sku] marks_def cursor_def left_ok_def)
  then have "res_spec b (\<lambda>u. sched_inv u \<and> only c t u \<and> w_from (window u c) = first_own u c (i + 1) \<and>
      (\<forall>j. own t c j \<and> j \<noteq> i \<longrightarrow> entry u j = entry t j)) (qcsched_window_shrink_entry ?u c c i)"
  proof (rule res_spec_mono [OF shrink_entry_local_spec], goal_cases)
    case (3 v)
    then have on: "only c t v" and sk: "skel v = skel ?u" "skel v = skel t"
      using only_trans [OF lf(1)] sku by (auto dest: only_skel)
    have "quiet v c"
      by (rule quiet_activated [OF w(4) sk(2) act])
    then have "sched_inv v"
      using sched_inv_only [OF inv on] 3 by (simp add: win_def)
    moreover have "first_own v c (i + 1) = first_own ?u c (i + 1)"
      by (rule first_own_cong [OF sk(1)]) (use 3 in simp)
    moreover have "entry v j = entry t j" if "own t c j" "j \<noteq> i" for j
    proof (rule entry_eqI [OF sk(2)])
      show "e_footprint (entry v j) = e_footprint (entry t j)"
        using 3 fpu that by simp
      have "j \<in> installed_on v c \<longleftrightarrow> j \<in> installed_on t c"
        using 3 lf(5) that by simp
      then show "installed (entry v j) = installed (entry t j)"
        using that by (simp add: installed_on_def own_skel [OF sk(2)])
    qed
    ultimately show ?case
      using 3 on by simp
  qed (use assms(7,8) in \<open>simp_all add: io_ok_skel [OF sku] skelD [OF sku]\<close>)
  then show ?thesis
    using assms(2) fp open_w og(3) by (simp add: prune_one_def qcsched_window_window_closed_def own_def Let_def)
qed

text \<open>The entry a CPU stopped at, found by its address.\<close>

lemma lookup_by_address_installed:
  assumes "glob s" and "distinct_addrs s" and "core s c" and "c \<noteq> 0" and "h \<in> installed_on s c"
    and "w_from (window s c) \<le> h" and "0 \<le> w_from (window s c)"
  shows "lookup_entry_by_address s c (e_addr (entry s h)) = Some h"
proof -
  have h: "own s c h" "e_addr (entry s h) \<noteq> QCSCHED_DUMMY_BREAKPOINT"
    using assms(3,5) by (auto simp: installed_on_def core_def)
  have "e_addr (entry s j) \<noteq> e_addr (entry s h)" if "w_from (window s c) \<le> j" "j < h" "e_cpu (entry s j) = c" for j
  proof -
    have "own s c j" using that h(1) assms(7) by (auto simp: own_def)
    then show ?thesis
      using assms(2,4) h that(2) by (metis distinct_addrs_def less_irrefl)
  qed
  then show ?thesis
    using h(1) own_glob(2) [OF assms(1) h(1) assms(4)] assms(6)
    by (auto simp: lookup_entry_by_address_def find_upto_Some own_def END_OF_SCHEDPOINT_WINDOW_def)
qed

lemma prune_loop_spec:
  assumes inv: "sched_inv s" and "c \<noteq> 0" and h: "own s c h" "e_footprint (entry s h) \<noteq> footprint_missed"
    and le: "w_from (window s c) \<le> h"
    and busy: "cpu_state (sched s) c \<notin> {qcsched_cpu_idle, qcsched_cpu_ready}"
    and "b \<Longrightarrow> io_ok s" and "b \<Longrightarrow> current_cpu s = c"
  shows "res_spec b (\<lambda>t. sched_inv t \<and> skel t = skel s \<and> w_from (window t c) = h \<and>
      (\<forall>j. own s c j \<and> h \<le> j \<longrightarrow> entry t j = entry s j))
    (foreach [w_from (window s c)..h - 1] (prune_one c) s)"
proof -
  have gl: "glob s" using inv by (simp add: sched_inv_def)
  note og = own_glob [OF gl h(1) assms(2)]
  have w: "cursor s c"
    using sched_invD(3) [OF inv og(5)] assms(2) by (simp add: win_def)
  have tot: "tot s \<le> MAX_SCHEDPOINTS" using gl by (simp add: glob_def)
  define I where "I i t \<longleftrightarrow> sched_inv t \<and> skel t = skel s \<and> w_from (window t c) = first_own t c i \<and>
      (\<forall>j. own s c j \<and> h \<le> j \<longrightarrow> entry t j = entry s j)" for i t
  have "res_spec b (I h) (foreach [w_from (window s c)..h - 1] (prune_one c) s)"
  proof (rule foreach_upto_spec)
    show "I (w_from (window s c)) s"
      using inv cursor_first_own [OF gl w assms(2)] by (simp add: I_def)
    show "w_from (window s c) \<le> h" by (rule le)
  next
    fix i t
    assume i: "w_from (window s c) \<le> i" "i < h" and I: "I i t"
    have sk: "skel t = skel s" and it: "sched_inv t" and gt: "glob t"
      using I by (auto simp: I_def sched_inv_def)
    have lt: "0 \<le> i" "i < tot t" "i < MAX_SCHEDPOINTS"
      using i og(2) tot cursor_from_nonneg [OF w] skelD(1) [OF sk] by auto
    show "res_spec b (I (i + 1)) (prune_one c i t)"
    proof (cases "e_footprint (entry t i) = footprint_missed")
      case True
      then show ?thesis
        using I first_own_skip [of i t c] lt tot skelD(1) [OF sk] by (simp add: prune_one_def I_def)
    next
      case False
      show ?thesis
      proof (cases "e_cpu (entry t i) = c")
        case True
        then have own: "own t c i" using lt by (simp add: own_def)
        have "w_from (window t c) = i"
          using I first_own_self [OF gt own assms(2) False] by (simp add: I_def)
        then show ?thesis
          by (rule res_spec_mono [OF prune_own_spec [OF it own assms(2) False]])
            (use assms(7,8) busy I i in \<open>auto simp: I_def io_ok_skel [OF sk] skelD [OF sk] own_skel [OF sk] dest: only_skel\<close>)
      next
        case other: False
        have own: "own t (e_cpu (entry t i)) i" using lt by (simp add: own_def)
        show ?thesis
        proof (rule res_spec_mono [OF prune_other_spec [OF it own other False lt(2)]])
          fix u
          assume u: "sched_inv u \<and> only (e_cpu (entry t i)) t u \<and> (\<forall>j. entry u j = entry t j)"
          then have "skel u = skel t" "window u c = window t c"
            using other by (auto simp: only_def)
          moreover have "first_own u c (i + 1) = first_own t c (i + 1)"
            by (rule first_own_cong) (use u calculation in auto)
          moreover have "first_own t c i = first_own t c (i + 1)"
            using first_own_skip [of i t c] lt tot other skelD(1) [OF sk] by simp
          ultimately show "I (i + 1) u"
            using I u by (simp add: I_def)
        qed
      qed
    qed
  qed
  then show ?thesis
  proof (rule res_spec_mono)
    fix t
    assume t: "I h t"
    then have sk: "skel t = skel s" and same: "entry t h = entry s h" and gt: "glob t"
      using h(1) by (auto simp: I_def sched_inv_def)
    have "first_own t c h = h"
      by (rule first_own_self [OF gt _ assms(2)]) (use h same in \<open>auto simp: own_skel [OF sk]\<close>)
    then show "sched_inv t \<and> skel t = skel s \<and> w_from (window t c) = h \<and>
      (\<forall>j. own s c j \<and> h \<le> j \<longrightarrow> entry t j = entry s j)"
      using t by (simp add: I_def)
  qed
qed

lemma prune_spec:
  assumes inv: "sched_inv s" and "c \<noteq> 0" and h: "h \<in> installed_on s c" "e_addr (entry s h) = RIP s c"
    and le: "w_from (window s c) \<le> h"
    and busy: "cpu_state (sched s) c \<notin> {qcsched_cpu_idle, qcsched_cpu_ready}"
    and "b \<Longrightarrow> io_ok s" and "b \<Longrightarrow> current_cpu s = c"
  shows "res_spec b (\<lambda>t. sched_inv t \<and> skel t = skel s \<and> w_from (window t c) = h \<and>
      (\<forall>j. own s c j \<and> h \<le> j \<longrightarrow> entry t j = entry s j))
    (qcsched_window_prune_missed_schedpoint s c)"
proof -
  have gl: "glob s" "distinct_addrs s" using inv by (auto simp: sched_inv_def)
  have oh: "own s c h" using h(1) by (simp add: installed_on_def)
  note og = own_glob [OF gl(1) oh assms(2)]
  have w: "core s c" "marks s c" "cursor s c"
    using sched_invD(3) [OF inv og(5)] assms(2) by (auto simp: win_def)
  note f0 = cursor_from_nonneg [OF w(3)]
  have hit: "lookup_entry_by_address s c (RIP s c) = Some h"
    using lookup_by_address_installed [OF gl w(1) assms(2) h(1) le f0] h(2) by simp
  have "w_from (window s c) \<noteq> END_OF_SCHEDPOINT_WINDOW"
    using le oh by (auto simp: own_def END_OF_SCHEDPOINT_WINDOW_def)
  then have fo: "own s c (w_from (window s c))"
    "lookup_entry_by_order s (Some c) (w_from (window s c)) = Some (w_from (window s c))"
    using lookup_self [OF gl(1) _ assms(2)] w(3) by (auto simp: cursor_def)
  note fog = own_glob(3) [OF gl(1) fo(1) assms(2)]
  have "e_footprint (entry s h) \<noteq> footprint_missed"
    using w(2) h(1) by (auto simp: marks_def)
  note loop = prune_loop_spec [OF inv assms(2) oh this le busy assms(7,8)]
  have "qcsched_window_prune_missed_schedpoint s c =
      (if h = w_from (window s c) then Ok s else foreach [w_from (window s c)..h - 1] (prune_one c) s)"
    using le by (simp add: qcsched_window_prune_missed_schedpoint_def hit fo(2) og(3) fog)
  then show ?thesis
    using loop inv by simp
qed

end
