(* ===== verification/Exec_Control.thy ===== *)
theory Exec_Control
  imports Window
begin

text \<open>
  Stopping and resuming the task of a CPU: the blocker (\<^verbatim>\<open>qcsched/blocker.c\<close>), the
  operations the handlers call (\<^verbatim>\<open>qcsched/exec_control.c\<close>) and the timer that frees a
  CPU that has been stopped for too long (\<^verbatim>\<open>qcsched/timer.c\<close>).
\<close>

section \<open>The blocker\<close>

definition blocker_task_kidnapped :: "qstate \<Rightarrow> int \<Rightarrow> bool" where
  "blocker_task_kidnapped s c \<longleftrightarrow> blocked (infos s c)"

definition blocker_kidnap_task :: "qstate \<Rightarrow> int \<Rightarrow> qstate" where
  "blocker_kidnap_task s c = upd_info c (\<lambda>x. x\<lparr>blocked := True, waking_up := False\<rparr>) s"

definition blocker_resume_task :: "qstate \<Rightarrow> int \<Rightarrow> qstate" where
  "blocker_resume_task s c =
     upd_info c (\<lambda>x. x\<lparr>kicked := False\<rparr>)
       (upd_cpu c (\<lambda>p. p\<lparr>qcsched_force_wakeup := False\<rparr>)
         (upd_info c (\<lambda>x. x\<lparr>blocked := False, waking_up := False\<rparr>) s))"

definition blocker_wake_cpu_up :: "qstate \<Rightarrow> int \<Rightarrow> int \<Rightarrow> qstate" where
  "blocker_wake_cpu_up s c wakeup = upd_info wakeup (\<lambda>x. x\<lparr>waking_up := True\<rparr>) s"

definition blocker_want_to_wake_up :: "qstate \<Rightarrow> int \<Rightarrow> bool" where
  "blocker_want_to_wake_up s c \<longleftrightarrow> waking_up (infos s c)"

definition blocker_reset :: "qstate \<Rightarrow> int \<Rightarrow> qstate" where
  "blocker_reset s c = upd_info c (\<lambda>x. x\<lparr>waking_up := False, blocked := False\<rparr>) s"

section \<open>The contract of stopping a task\<close>

text \<open>
  What the handlers rely on, whichever mechanism stops a task: stopping marks exactly the CPU it is
  called for, resuming unmarks exactly that CPU.
\<close>

locale task_control =
  fixes kidnapped :: "'s \<Rightarrow> int \<Rightarrow> bool"
    and kidnap :: "'s \<Rightarrow> int \<Rightarrow> 's"
    and resume :: "'s \<Rightarrow> int \<Rightarrow> 's"
  assumes kidnapped_kidnap: "kidnapped (kidnap s c) d \<longleftrightarrow> d = c \<or> kidnapped s d"
    and kidnapped_resume: "kidnapped (resume s c) d \<longleftrightarrow> d \<noteq> c \<and> kidnapped s d"
begin

lemma kidnapped_kidnap_all: "kidnapped (fold (\<lambda>c s. kidnap s c) cs s) d \<longleftrightarrow> d \<in> set cs \<or> kidnapped s d"
  by (induction cs arbitrary: s) (auto simp: kidnapped_kidnap)

lemma kidnapped_resume_all: "kidnapped (fold (\<lambda>c s. resume s c) cs s) d \<longleftrightarrow> d \<notin> set cs \<and> kidnapped s d"
  by (induction cs arbitrary: s) (auto simp: kidnapped_resume)

lemma kidnap_resume_round_trip:
  "kidnapped (fold (\<lambda>c s. resume s c) cs (fold (\<lambda>c s. kidnap s c) cs s)) d \<longleftrightarrow>
   d \<notin> set cs \<and> kidnapped s d"
  by (auto simp: kidnapped_resume_all kidnapped_kidnap_all)

end

interpretation blocker: task_control blocker_task_kidnapped blocker_kidnap_task blocker_resume_task
  by unfold_locales
    (auto simp: blocker_task_kidnapped_def blocker_kidnap_task_def blocker_resume_task_def upd_defs)

section \<open>Execution control\<close>

definition task_kidnapped :: "qstate \<Rightarrow> int \<Rightarrow> bool" where
  "task_kidnapped s c = blocker_task_kidnapped s c"

text \<open>One shot after one second: \<^verbatim>\<open>__init_itimerspec\<close>.\<close>

definition qcsched_arm_selfescape_timer :: "qstate \<Rightarrow> int \<Rightarrow> qstate res" where
  "qcsched_arm_selfescape_timer s c =
     res_bind (c_assert (ext_timer_settime (ext s) c = 0) s) (\<lambda>s.
       Ok (upd_info c (\<lambda>x. x\<lparr>timer := Some 1\<rparr>) s))"

definition kidnap_task :: "qstate \<Rightarrow> int \<Rightarrow> qstate res" where
  "kidnap_task s c =
     (let kidnapped = task_kidnapped s c in
      res_bind (qcsched_vmi_running_context_being_scheduled s c True) (\<lambda>ok.
        res_bind (c_assert ok s) (\<lambda>s.
          if current (sched s) = tot s \<or> \<not> activated (sched s) then Ok s
          else res_bind (c_assert (\<not> kidnapped) s) (\<lambda>s.
                 qcsched_arm_selfescape_timer (blocker_kidnap_task s c) c))))"

definition resume_task :: "qstate \<Rightarrow> int \<Rightarrow> qstate res" where
  "resume_task s c =
     (let kidnapped = task_kidnapped s c in
      res_bind (c_assert kidnapped s) (\<lambda>s.
        res_bind (c_assert (iothread_locked s) s) (\<lambda>s.
          res_bind (c_assert (c = current_cpu s) s) (\<lambda>s.
            qcsched_window_expand_window (blocker_resume_task s c) c))))"

definition wake_cpu_up :: "qstate \<Rightarrow> int \<Rightarrow> int \<Rightarrow> qstate" where
  "wake_cpu_up s c wakeup = blocker_wake_cpu_up s c wakeup"

definition wake_others_up :: "qstate \<Rightarrow> int \<Rightarrow> qstate" where
  "wake_others_up s c0 =
     fold (\<lambda>c s. if \<not> task_kidnapped s c \<or> c = c0 then s else wake_cpu_up s c0 c) (cpus s) s"

definition want_to_wake_up :: "qstate \<Rightarrow> int \<Rightarrow> bool" where
  "want_to_wake_up s c = blocker_want_to_wake_up s c"

definition reset_exec_control :: "qstate \<Rightarrow> int \<Rightarrow> qstate" where
  "reset_exec_control s c = blocker_reset s c"

section \<open>The kick\<close>

definition qcsched_handle_kick_locked :: "qstate \<Rightarrow> int \<Rightarrow> qstate res" where
  "qcsched_handle_kick_locked s c =
     res_bind (c_assert (c = current_cpu s) s) (\<lambda>s.
       if \<not> kicked (infos s c) then Ok s
       else let s = upd_info c (\<lambda>x. x\<lparr>kicked := False\<rparr>) s in
         if \<not> task_kidnapped s c then Ok s
         else Ok (wake_cpu_up (upd_cpu c (\<lambda>p. p\<lparr>qcsched_force_wakeup := True\<rparr>) s) c c))"

definition qcsched_handle_kick :: "qstate \<Rightarrow> int \<Rightarrow> qstate res" where
  "qcsched_handle_kick s c =
     res_bind (qemu_mutex_lock_iothread s) (\<lambda>s.
       res_bind (qcsched_handle_kick_locked (qcsched_eat_cookie s c cookie_timer) c)
         qemu_mutex_unlock_iothread)"

end
