(* ===== verification/Breakpoint.thy ===== *)
theory Breakpoint
  imports Exec_Control
begin

text \<open>
  The handler of a breakpoint hit (\<^verbatim>\<open>qcsched/breakpoint.c\<close>): the hook that starts a
  CPU's part of the schedule, the scheduling points, and the watchdog.
\<close>

definition breakpoint_on_hook :: "qstate \<Rightarrow> int \<Rightarrow> bool" where
  "breakpoint_on_hook s c \<longleftrightarrow> RIP s c = hook_addr (vmi_info s)"

definition breakpoint_on_schedpoint :: "qstate \<Rightarrow> int \<Rightarrow> bool res" where
  "breakpoint_on_schedpoint s c =
     res_bind (qcsched_vmi_task s c) (\<lambda>running.
       Ok (list_ex (\<lambda>i. e_addr (entry s i) = RIP s c \<and> installed (entry s i) \<and>
                        vmi_same_task running (e_task (entry s i))) [0..tot s - 1]))"

definition handle_breakpoint_hook :: "qstate \<Rightarrow> int \<Rightarrow> qstate res" where
  "handle_breakpoint_hook s c =
     res_bind (qcsched_vmi_running_context_being_scheduled s c False) (\<lambda>ours.
       if \<not> ours
       then let (err, s) = kvm_insert_breakpoint_cpu s c (hook_addr (vmi_info s)) 1 GDB_BREAKPOINT_HW
            in c_assert (err = 0) s
       else res_bind (qcsched_vmi_can_progress s c) (\<lambda>go.
              if \<not> go then kidnap_task s c else qcsched_window_expand_window s c))"

definition qcsched_yield_turn_from :: "qstate \<Rightarrow> int \<Rightarrow> int \<Rightarrow> qstate res" where
  "qcsched_yield_turn_from s c current_order =
     res_bind (hand_over_baton_from s c current_order) (\<lambda>s.
       res_bind (kidnap_task s c) (\<lambda>s. Ok (wake_others_up s c)))"

definition qcsched_keep_this_cpu_going :: "qstate \<Rightarrow> int \<Rightarrow> qstate res" where
  "qcsched_keep_this_cpu_going s c =
     (let step = (case lookup_entry_by_order s (Some c) (w_from (window s c)) of
                    None \<Rightarrow> tot s - current (sched s)
                  | Some e \<Rightarrow> e_order (entry s e) - current (sched s))
      in forward_focus s step)"

definition handle_breakpoint_schedpoint :: "qstate \<Rightarrow> int \<Rightarrow> qstate res" where
  "handle_breakpoint_schedpoint s c =
     (if task_kidnapped s c then Ok s
      else if qcsched_window_hit_stale_schedpoint s c then qcsched_window_expand_window s c
      else case lookup_entry_by_address s c (RIP s c) of
             None \<Rightarrow> Fault Null_deref
           | Some current_entry \<Rightarrow>
               let current_order = e_order (entry s current_entry) in
               res_bind (qcsched_window_prune_missed_schedpoint s c) (\<lambda>s.
               res_bind (qcsched_window_shrink_window (qcsched_window_leave_footprint s c footprint_hit) c) (\<lambda>s.
                 if qcsched_window_lock_contending s c \<or>
                    qcsched_window_consecutive_schedpoint s c current_order
                 then res_bind (qcsched_window_expand_window s c) (\<lambda>s. qcsched_keep_this_cpu_going s c)
                 else qcsched_yield_turn_from s c current_order)))"

section \<open>The watchdog\<close>

definition upd_record ::
  "int \<Rightarrow> (qcsched_breakpoint_record \<Rightarrow> qcsched_breakpoint_record) \<Rightarrow> qstate \<Rightarrow> qstate" where
  "upd_record c f s =
     upd_sched (\<lambda>q. q\<lparr>last_breakpoint := (last_breakpoint q)(c := f (last_breakpoint q c))\<rparr>) s"

definition watchdog_breakpoint_check_count :: "qstate \<Rightarrow> int \<Rightarrow> (bool \<times> qstate) res" where
  "watchdog_breakpoint_check_count s c =
     (if rec_RIP (last_breakpoint (sched s) c) \<noteq> RIP s c then Ok (False, s)
      else
        let s = upd_record c (\<lambda>r. r\<lparr>rec_count := rec_count r + 1\<rparr>) s;
            count = rec_count (last_breakpoint (sched s) c)
        in res_bind (c_assert (count < WATCHDOG_BREAKPOINT_COUNT_KILL_QEMU) s) (\<lambda>s.
             let count_max = (if breakpoint_on_hook s c then WATCHDOG_BREAKPOINT_COUNT_MAX * 5
                              else WATCHDOG_BREAKPOINT_COUNT_MAX)
             in if count \<ge> count_max
                then res_bind (close_and_update s c) (\<lambda>s. Ok (True, s))
                else Ok (False, s)))"

definition watchdog_breakpoint_reset :: "qstate \<Rightarrow> int \<Rightarrow> qstate" where
  "watchdog_breakpoint_reset s c = upd_record c (\<lambda>r. r\<lparr>rec_RIP := RIP s c, rec_count := 0\<rparr>) s"

definition watchdog_breakpoint :: "qstate \<Rightarrow> int \<Rightarrow> (bool \<times> qstate) res" where
  "watchdog_breakpoint s c =
     (if rec_RIP (last_breakpoint (sched s) c) \<noteq> RIP s c
      then Ok (False, watchdog_breakpoint_reset s c)
      else watchdog_breakpoint_check_count s c)"

section \<open>The handler\<close>

definition dispatch_breakpoint :: "qstate \<Rightarrow> int \<Rightarrow> qstate res" where
  "dispatch_breakpoint s c =
     (if breakpoint_on_hook s c then handle_breakpoint_hook s c
      else res_bind (breakpoint_on_schedpoint s c) (\<lambda>on.
             if on then handle_breakpoint_schedpoint s c else Ok s))"

definition qcsched_handle_breakpoint_iolocked :: "qstate \<Rightarrow> int \<Rightarrow> (int \<times> qstate) res" where
  "qcsched_handle_breakpoint_iolocked s c =
     (let (err, s) = kvm_remove_breakpoint_cpu s c (RIP s c) 1 GDB_BREAKPOINT_HW in
      if err \<noteq> 0 \<and> \<not> (err = - ENOENT \<and> \<not> activated (sched s))
      then res_bind (close_and_update s c) (\<lambda>s. Ok (0, s))
      else res_bind (qcsched_vmi_in_task s c) (\<lambda>in_task.
        if \<not> in_task then Ok (0, s)
        else res_bind (watchdog_breakpoint s c) (\<lambda>(_, s).
          res_bind (watchdog_breakpoint s c) (\<lambda>(watchdog_failed, s).
            res_bind (qcsched_window_cleanup_left_schedpoint (qcsched_window_sync s c) c) (\<lambda>s.
              if watchdog_failed then Ok (0, s)
              else res_bind (dispatch_breakpoint s c) (\<lambda>s. Ok (0, s)))))))"

definition qcsched_handle_breakpoint :: "qstate \<Rightarrow> int \<Rightarrow> (int \<times> qstate) res" where
  "qcsched_handle_breakpoint s c =
     res_bind (qemu_mutex_lock_iothread s) (\<lambda>s.
       res_bind (qcsched_handle_breakpoint_iolocked (qcsched_eat_cookie s c cookie_breakpoint) c)
         (\<lambda>(ret, s). res_bind (qemu_mutex_unlock_iothread s) (\<lambda>s. Ok (ret, s))))"

end
