(* ===== verification/Breakpoint_Inv.thy ===== *)
theory Breakpoint_Inv
  imports Prune_Inv Breakpoint
begin

text \<open>
  The breakpoint handler keeps the invariant and does not end the process.
\<close>

section \<open>What a handler may rely on\<close>

text \<open>\<open>env s t\<close>: the parts of the state that no step of the handler changes.\<close>

definition env :: "qstate \<Rightarrow> qstate \<Rightarrow> bool" where
  "env s t \<longleftrightarrow> ext t = ext s \<and> vmi_info t = vmi_info s \<and> phys_page t = phys_page s \<and> pmem t = pmem s \<and>
     current_cpu t = current_cpu s \<and> iothread_locked t = iothread_locked s \<and> cpus t = cpus s \<and>
     cpu_of t = cpu_of s \<and> tot t = tot s \<and> activated (sched t) = activated (sched s) \<and>
     used (sched t) = used (sched s) \<and> cpu_state (sched t) = cpu_state (sched s) \<and>
     (\<forall>i. e_addr (entry t i) = e_addr (entry s i) \<and> e_cpu (entry t i) = e_cpu (entry s i) \<and>
          e_task (entry t i) = e_task (entry s i))"

lemma env_refl [simp]: "env s s"
  by (simp add: env_def)

lemma env_trans: "env s t \<Longrightarrow> env t u \<Longrightarrow> env s u"
  by (simp add: env_def)

lemma skel_env:
  assumes "skel t = skel s"
  shows "env s t"
  by (simp add: env_def skelD [OF assms])

lemma envD:
  assumes "env s t"
  shows "ext t = ext s" "vmi_info t = vmi_info s" "phys_page t = phys_page s" "pmem t = pmem s"
    "current_cpu t = current_cpu s" "iothread_locked t = iothread_locked s" "cpus t = cpus s"
    "cpu_of t = cpu_of s" "tot t = tot s" "activated (sched t) = activated (sched s)"
    "used (sched t) = used (sched s)" "cpu_state (sched t) = cpu_state (sched s)"
    "e_addr (entry t i) = e_addr (entry s i)" "e_cpu (entry t i) = e_cpu (entry s i)"
    "e_task (entry t i) = e_task (entry s i)" "own t c i = own s c i"
  using assms by (auto simp: env_def own_def)

text \<open>
  The system around the handler: the calls it makes succeed, the guest's per-CPU section is mapped,
  the handler runs on the thread of its CPU, and the last array slot is not in use.
\<close>

definition host_ok :: "qstate \<Rightarrow> int \<Rightarrow> bool" where
  "host_ok s c \<longleftrightarrow> io_ok s \<and> ext_timer_settime (ext s) c = 0 \<and> is_ok (qcsched_vmi_task s c) \<and>
     is_ok (qcsched_vmi_preempt_count s c) \<and> current_cpu s = c \<and> tot s < MAX_SCHEDPOINTS"

definition fair :: "qstate \<Rightarrow> int \<Rightarrow> bool" where
  "fair s c \<longleftrightarrow> host_ok s c \<and> iothread_locked s"

lemma env_vmi:
  assumes "env s t"
  shows "qcsched_vmi_task t c = qcsched_vmi_task s c" "qcsched_vmi_in_task t c = qcsched_vmi_in_task s c"
    "qcsched_vmi_preempt_count t c = qcsched_vmi_preempt_count s c"
    "vmi_scheduling_subject t k = vmi_scheduling_subject s k"
    "qcsched_vmi_running_context_being_scheduled t c b = qcsched_vmi_running_context_being_scheduled s c b"
proof -
  show a: "qcsched_vmi_task t c = qcsched_vmi_task s c" "qcsched_vmi_in_task t c = qcsched_vmi_in_task s c"
    "qcsched_vmi_preempt_count t c = qcsched_vmi_preempt_count s c"
    using vmi_read_cong [of t s c] envD [OF assms] by auto
  show b: "vmi_scheduling_subject t k = vmi_scheduling_subject s k" for k
    by (simp add: vmi_scheduling_subject_def envD [OF assms])
  show "qcsched_vmi_running_context_being_scheduled t c b = qcsched_vmi_running_context_being_scheduled s c b"
    by (simp add: qcsched_vmi_running_context_being_scheduled_def a b cong: if_cong)
qed

lemma env_fair:
  assumes "env s t"
  shows "fair t c = fair s c"
  by (simp add: fair_def host_ok_def io_ok_def env_vmi [OF assms] envD [OF assms])

section \<open>The focus\<close>

lemma sched_inv_focus:
  assumes "sched_inv s" and "0 \<le> n" and "n \<le> tot s"
  shows "sched_inv (upd_sched (\<lambda>q. q\<lparr>current := n\<rparr>) s)"
  by (rule sched_inv_parts [OF assms(1)])
    (use assms in \<open>auto simp: sched_inv_def glob_def win_def quiet_def upd_sched_def\<close>)

lemma forward_focus_spec:
  assumes "sched_inv s" and "0 \<le> n" and "n \<le> tot s" and "b \<Longrightarrow> tot s < MAX_SCHEDPOINTS"
  shows "res_spec b (\<lambda>t. sched_inv t \<and> env s t \<and> infos t = infos s) (forward_focus s (n - current (sched s)))"
proof -
  have "forward_focus s (n - current (sched s)) = (if n < MAX_SCHEDPOINTS
      then Ok (upd_sched (\<lambda>q. q\<lparr>current := n\<rparr>) s) else Fault Out_of_bounds)"
    using assms(2) by (simp add: forward_focus_def Let_def)
  then show ?thesis
    using sched_inv_focus [OF assms(1-3)] assms(3,4) by (auto simp: env_def upd_sched_def)
qed

lemma lookup_order_bounds:
  assumes "glob s" and "lookup_entry_by_order s p f = Some e" and "0 \<le> f"
  shows "0 \<le> e_order (entry s e)" and "e_order (entry s e) \<le> tot s"
proof -
  have e: "0 \<le> e" "e < tot s" "e < MAX_SCHEDPOINTS"
    using assms by (auto simp: lookup_entry_by_order_def find_upto_Some glob_def split: if_splits)
  then show "0 \<le> e_order (entry s e)" and "e_order (entry s e) \<le> tot s"
    using assms(1) by (auto simp: glob_def dest!: spec [of _ e] split: if_splits)
qed

lemma hand_over_spec:
  assumes "sched_inv s" and "0 \<le> order" and "b \<Longrightarrow> tot s < MAX_SCHEDPOINTS"
  shows "res_spec b (\<lambda>t. sched_inv t \<and> env s t \<and> infos t = infos s) (hand_over_baton_from s c order)"
proof -
  have gl: "glob s" using assms(1) by (simp add: sched_inv_def)
  have "0 \<le> next_valid_order_of s p order \<and> next_valid_order_of s p order \<le> tot s" for p
    using lookup_order_bounds [OF gl] assms(2) gl
    by (auto simp: next_valid_order_of_def glob_def split: option.splits)
  then show ?thesis
    unfolding hand_over_baton_from_def Let_def by (intro forward_focus_spec assms(1,3)) auto
qed

lemma keep_going_spec:
  assumes "sched_inv s" and "c \<in> set (cpus s)" and "c \<noteq> 0" and "b \<Longrightarrow> tot s < MAX_SCHEDPOINTS"
  shows "res_spec b (\<lambda>t. sched_inv t \<and> env s t \<and> infos t = infos s) (qcsched_keep_this_cpu_going s c)"
proof -
  have gl: "glob s" and w: "cursor s c"
    using sched_invD [OF assms(1,2)] assms(3) by (auto simp: win_def)
  show ?thesis
  proof (cases "lookup_entry_by_order s (Some c) (w_from (window s c))")
    case None
    then show ?thesis
      using forward_focus_spec [OF assms(1), of "tot s"] gl assms(4)
      by (simp add: qcsched_keep_this_cpu_going_def glob_def)
  next
    case (Some e)
    then show ?thesis
      using forward_focus_spec [OF assms(1), of "e_order (entry s e)"] assms(4)
        lookup_order_bounds [OF gl Some cursor_from_nonneg [OF w]]
      by (simp add: qcsched_keep_this_cpu_going_def)
  qed
qed

section \<open>Stopping a task\<close>

text \<open>Changing a CPU's execution control flags keeps the invariant as long as only an activated CPU
  is blocked and only a blocked CPU is waking up.\<close>

lemma sched_inv_infos:
  assumes "sched_inv s"
    and "\<And>d. waking_up (f d) \<Longrightarrow> blocked (f d)"
    and "\<And>d. d \<in> set (cpus s) \<Longrightarrow> d \<noteq> 0 \<Longrightarrow> blocked (f d) \<Longrightarrow> cpu_state (sched s) d = qcsched_cpu_activated"
    and "\<not> blocked (f 0)"
  shows "sched_inv (s\<lparr>infos := f\<rparr>)"
  by (rule sched_inv_parts [OF assms(1)])
    (use assms in \<open>auto simp: sched_inv_def glob_def\<close>)

lemma kidnap_spec:
  assumes inv: "sched_inv s" and "\<not> blocked (infos s c)" and "c \<noteq> 0"
    and act: "activated (sched s) \<Longrightarrow> cpu_state (sched s) c = qcsched_cpu_activated"
    and "b \<Longrightarrow> qcsched_vmi_running_context_being_scheduled s c True = Ok True" and "b \<Longrightarrow> fair s c"
  shows "res_spec b (\<lambda>t. sched_inv t \<and> env s t) (kidnap_task s c)"
proof -
  let ?t = "s\<lparr>infos := (infos s)(c := (infos s c)\<lparr>blocked := True, waking_up := False, timer := Some 1\<rparr>)\<rparr>"
  have wk: "waking_up (infos s d) \<Longrightarrow> blocked (infos s d)" for d
    using inv by (simp add: sched_inv_def glob_def)
  have bl: "d \<in> set (cpus s) \<Longrightarrow> d \<noteq> 0 \<Longrightarrow> blocked (infos s d) \<Longrightarrow> cpu_state (sched s) d = qcsched_cpu_activated" for d
    using inv by (simp add: sched_inv_def win_def quiet_def)
  have "sched_inv ?t" if "activated (sched s)"
    by (rule sched_inv_infos [OF inv])
      (use wk bl act that inv assms(3) in \<open>auto simp: sched_inv_def glob_def split: if_splits\<close>)
  moreover have "env s ?t"
    by (simp add: env_def)
  ultimately show ?thesis
    using assms(2,5,6) inv
    by (cases "qcsched_vmi_running_context_being_scheduled s c True")
      (auto simp: kidnap_task_def task_kidnapped_def blocker_task_kidnapped_def blocker_kidnap_task_def
        qcsched_arm_selfescape_timer_def upd_info_def fair_def host_ok_def c_assert_def)
qed

lemma wake_others_up_eq:
  "wake_others_up s c = s\<lparr>infos := \<lambda>d. if d \<in> set (cpus s) \<and> blocked (infos s d) \<and> d \<noteq> c
     then (infos s d)\<lparr>waking_up := True\<rparr> else infos s d\<rparr>"
proof -
  have "fold (\<lambda>d s. if \<not> task_kidnapped s d \<or> d = c then s else wake_cpu_up s c d) cs s =
     s\<lparr>infos := \<lambda>d. if d \<in> set cs \<and> blocked (infos s d) \<and> d \<noteq> c
       then (infos s d)\<lparr>waking_up := True\<rparr> else infos s d\<rparr>" for cs
  proof (induction cs arbitrary: s)
    case Nil
    then show ?case by simp
  next
    case (Cons d cs)
    show ?case
      unfolding fold_Cons comp_def Cons.IH
      by (rule qstate.equality)
        (auto simp: task_kidnapped_def blocker_task_kidnapped_def wake_cpu_up_def blocker_wake_cpu_up_def
          upd_info_def fun_eq_iff)
  qed
  then show ?thesis
    by (simp add: wake_others_up_def)
qed

lemma wake_others_inv: "sched_inv s \<Longrightarrow> sched_inv (wake_others_up s c) \<and> env s (wake_others_up s c)"
  unfolding wake_others_up_eq
  by (intro conjI sched_inv_infos)
    (auto simp: sched_inv_def glob_def win_def quiet_def env_def split: if_splits)

lemma yield_spec:
  assumes inv: "sched_inv s" and "\<not> blocked (infos s c)" and "0 \<le> order"
    and act: "activated (sched s) \<Longrightarrow> cpu_state (sched s) c = qcsched_cpu_activated"
    and "b \<Longrightarrow> qcsched_vmi_running_context_being_scheduled s c True = Ok True" and "b \<Longrightarrow> fair s c" and "c \<noteq> 0"
  shows "res_spec b (\<lambda>t. sched_inv t \<and> env s t) (qcsched_yield_turn_from s c order)"
  unfolding qcsched_yield_turn_from_def
proof (rule res_spec_bind [OF hand_over_spec [OF inv assms(3)]])
  show "b \<Longrightarrow> tot s < MAX_SCHEDPOINTS" using assms(6) by (simp add: fair_def host_ok_def)
  fix t
  assume t: "sched_inv t \<and> env s t \<and> infos t = infos s"
  have "res_spec b (\<lambda>u. sched_inv u \<and> env t u) (kidnap_task t c)"
    by (rule kidnap_spec) (use t assms in \<open>auto simp: envD env_vmi env_fair\<close>)
  then show "res_spec b (\<lambda>t. sched_inv t \<and> env s t) (res_bind (kidnap_task t c) (\<lambda>s. Ok (wake_others_up s c)))"
    by (rule res_spec_bind) (use t wake_others_inv in \<open>auto intro: env_trans\<close>)
qed

section \<open>Scheduling points\<close>

text \<open>\<open>worker s c\<close>: a worker CPU of the machine whose part of the schedule has started.\<close>

definition worker :: "qstate \<Rightarrow> int \<Rightarrow> bool" where
  "worker s c \<longleftrightarrow> c \<in> set (cpus s) \<and> c \<noteq> 0 \<and>
     cpu_state (sched s) c \<notin> {qcsched_cpu_idle, qcsched_cpu_ready} \<and>
     (cpu_state (sched s) c = qcsched_cpu_deactivated \<longrightarrow>
        \<not> activated (sched s) \<and> used (sched s) \<and> tot s \<noteq> 0)"

lemma worker_env:
  assumes "env s t"
  shows "worker t c = worker s c"
  by (simp add: worker_def envD [OF assms])

lemma workerD:
  assumes "worker s c"
  shows "c \<in> set (cpus s)" "c \<noteq> 0" "cpu_state (sched s) c \<notin> {qcsched_cpu_idle, qcsched_cpu_ready}"
    "activated (sched s) \<Longrightarrow> cpu_state (sched s) c = qcsched_cpu_activated"
  using assms by (cases "cpu_state (sched s) c"; simp add: worker_def)+

text \<open>The entry the CPU stopped at, if the window has not passed it, is installed.\<close>

definition armed_at :: "qstate \<Rightarrow> int \<Rightarrow> bool" where
  "armed_at s c \<longleftrightarrow> (\<forall>i. own s c i \<and> e_addr (entry s i) = RIP s c \<and> w_from (window s c) \<le> i \<longrightarrow>
     installed (entry s i))"

lemma expand_inv:
  assumes "sched_inv s" and "worker s c" and "b \<Longrightarrow> io_ok s"
  shows "res_spec b (\<lambda>t. sched_inv t \<and> env s t \<and> infos t = infos s) (qcsched_window_expand_window s c)"
proof -
  note w = workerD [OF assms(2)]
  note i = sched_invD [OF assms(1) w(1)]
  show ?thesis
    by (rule res_spec_mono [OF expand_window_spec [OF i(1,2) i(3) w(2,3) assms(3)]])
      (auto intro: sched_inv_only [OF assms(1)] skel_env dest: only_skel skelD(11))
qed

lemma hit_spec:
  assumes inv: "sched_inv s" and "worker s c" and h: "h \<in> installed_on s c" "w_from (window s c) = h"
    and "b \<Longrightarrow> io_ok s" and "b \<Longrightarrow> current_cpu s = c"
  shows "res_spec b (\<lambda>t. sched_inv t \<and> skel t = skel s)
    (qcsched_window_shrink_window (qcsched_window_leave_footprint s c footprint_hit) c)"
proof -
  note w = workerD [OF assms(2)]
  have i: "glob s" "core s c" "marks s c" "cursor s c" "quiet s c"
    using sched_invD [OF inv w(1)] w(2) by (auto simp: win_def)
  have oh: "own s c h" using h(1) by (simp add: installed_on_def)
  note og = own_glob [OF i(1) oh w(2)]
  have ne: "h \<noteq> END_OF_SCHEDPOINT_WINDOW"
    using oh by (auto simp: own_def END_OF_SCHEDPOINT_WINDOW_def)
  have act: "cpu_state (sched s) c = qcsched_cpu_activated"
    using busy_cases [OF i(5) w(3)] h(2) ne by simp
  let ?u = "qcsched_window_leave_footprint_at s c footprint_hit h"
  note lf = leave_footprint_at_simps [where s = s and c = c and fp = footprint_hit and order = h]
  note sku = only_skel [OF lf(1)]
  have fpu: "e_footprint (entry ?u j) = e_footprint (entry s j)" if "j \<noteq> h" for j
    using that lf(6) by simp
  have sh: "shrinkable ?u c h"
    using i w(2) oh h(2) lf(2,5,7) fpu ne act
    by (auto simp: shrinkable_def glob_skel [OF sku] own_skel [OF sku] marks_def cursor_def left_ok_def)
  have "lookup_entry_by_order ?u (Some c) h = Some h"
    by (rule lookup_self) (use sh lf(6) [of h] oh og(2) w(2) in \<open>auto simp: shrinkable_def own_def\<close>)
  moreover have "\<not> schedpoint_window_empty (window ?u c)"
    using core_nonempty [OF i(2) oh] h(1) lf(2) by (simp add: schedpoint_window_empty_def installed_on_def)
  ultimately have eq: "qcsched_window_shrink_window ?u c = res_bind (qcsched_window_shrink_entry ?u c c h) Ok"
    using lf(2) h(2)
    by (simp add: qcsched_window_shrink_window_def qcsched_window_shrink_window_1_def One_nat_def)
  have "res_spec b (\<lambda>t. sched_inv t \<and> skel t = skel s) (qcsched_window_shrink_entry ?u c c h)"
  proof (rule res_spec_mono [OF shrink_entry_local_spec [OF sh]])
    fix t
    assume t: "only c ?u t \<and> core t c \<and> marks t c \<and> cursor t c \<and> same_footprints ?u t \<and>
      installed_on t c = installed_on ?u c - {h} \<and> w_total (window t c) = w_total (window ?u c) \<and>
      w_from (window t c) = first_own ?u c (h + 1)"
    then have on: "only c s t" using only_trans [OF lf(1)] by blast
    have "quiet t c" by (rule quiet_activated [OF i(5) only_skel [OF on] act])
    then show "sched_inv t \<and> skel t = skel s"
      using sched_inv_only [OF inv on] t only_skel [OF on] by (simp add: win_def)
  qed (use assms(5,6) in \<open>simp_all add: io_ok_skel [OF sku] skelD [OF sku]\<close>)
  then have "res_spec b (\<lambda>t. sched_inv t \<and> skel t = skel s) (qcsched_window_shrink_window ?u c)"
    unfolding eq by (rule res_spec_bind) simp
  then show ?thesis
    by (simp add: qcsched_window_leave_footprint_def h(2))
qed

lemma schedpoint_spec:
  assumes inv: "sched_inv s" and wk: "worker s c" and at: "armed_at s c"
    and "b \<Longrightarrow> qcsched_vmi_running_context_being_scheduled s c True = Ok True" and "b \<Longrightarrow> fair s c"
  shows "res_spec b (\<lambda>t. sched_inv t \<and> env s t) (handle_breakpoint_schedpoint s c)"
proof -
  note w = workerD [OF wk]
  have i: "glob s" "distinct_addrs s" "core s c" "marks s c" "cursor s c" "quiet s c"
    using sched_invD [OF inv w(1)] w(2) by (auto simp: win_def)
  have fair: "b \<Longrightarrow> io_ok s" "b \<Longrightarrow> current_cpu s = c" "b \<Longrightarrow> tot s < MAX_SCHEDPOINTS"
    using assms(5) by (auto simp: fair_def host_ok_def)
  consider (blocked) "blocked (infos s c)"
    | (stale) "\<not> blocked (infos s c)" "qcsched_window_hit_stale_schedpoint s c"
    | (hit) "\<not> blocked (infos s c)" "\<not> qcsched_window_hit_stale_schedpoint s c"
    by blast
  then show ?thesis
  proof cases
    case blocked
    then show ?thesis
      using inv by (simp add: handle_breakpoint_schedpoint_def task_kidnapped_def blocker_task_kidnapped_def)
  next
    case stale
    then show ?thesis
      using res_spec_mono [OF expand_inv [OF inv wk fair(1)]]
      by (simp add: handle_breakpoint_schedpoint_def task_kidnapped_def blocker_task_kidnapped_def)
  next
    case hit
    then obtain h where h: "lookup_entry_by_address s c (RIP s c) = Some h"
      by (auto simp: qcsched_window_hit_stale_schedpoint_def split: option.splits)
    then have hh: "w_from (window s c) \<le> h" "h < tot s" "e_cpu (entry s h) = c" "e_addr (entry s h) = RIP s c"
      by (auto simp: lookup_entry_by_address_def find_upto_Some split: if_splits)
    have oh: "own s c h"
      using hh cursor_from_nonneg [OF i(5)] i(1) by (simp add: own_iff w(2))
    then have ih: "h \<in> installed_on s c"
      using at hh by (auto simp: armed_at_def installed_on_def)
    note og = own_glob [OF i(1) oh w(2)]
    let ?rest = "\<lambda>s. if qcsched_window_lock_contending s c \<or> qcsched_window_consecutive_schedpoint s c h
       then res_bind (qcsched_window_expand_window s c) (\<lambda>s. qcsched_keep_this_cpu_going s c)
       else qcsched_yield_turn_from s c h"
    have rest: "res_spec b (\<lambda>u. sched_inv u \<and> env s u) (?rest t)" if t: "sched_inv t" "skel t = skel s" for t
    proof -
      note e = skel_env [OF t(2)]
      have wt: "worker t c" "\<not> blocked (infos t c)"
        using wk worker_env [OF e] hit(1) skelD(11) [OF t(2)] by auto
      have y: "res_spec b (\<lambda>u. sched_inv u \<and> env t u) (qcsched_yield_turn_from t c h)"
        by (rule yield_spec [OF t(1) wt(2)])
          (use assms(4,5) og(1) w(2,4) in \<open>auto simp: env_vmi [OF e] env_fair [OF e] envD [OF e]\<close>)
      have k: "res_spec b (\<lambda>u. sched_inv u \<and> env t u)
          (res_bind (qcsched_window_expand_window t c) (\<lambda>s. qcsched_keep_this_cpu_going s c))"
      proof (rule res_spec_bind [OF expand_inv [OF t(1) wt(1)]])
        show "b \<Longrightarrow> io_ok t" using fair(1) by (simp add: io_ok_skel [OF t(2)])
        fix u
        assume u: "sched_inv u \<and> env t u \<and> infos u = infos t"
        have eu: "env s u" using env_trans [OF e] u by blast
        have "res_spec b (\<lambda>v. sched_inv v \<and> env u v \<and> infos v = infos u) (qcsched_keep_this_cpu_going u c)"
          by (rule keep_going_spec) (use u w fair(3) in \<open>auto simp: envD [OF eu]\<close>)
        then show "res_spec b (\<lambda>u. sched_inv u \<and> env t u) (qcsched_keep_this_cpu_going u c)"
          by (rule res_spec_mono) (use u in \<open>auto intro: env_trans\<close>)
      qed
      show ?thesis
        using res_spec_mono [OF y] res_spec_mono [OF k] env_trans [OF e] by simp
    qed
    have "res_spec b (\<lambda>u. sched_inv u \<and> env s u)
      (res_bind (qcsched_window_prune_missed_schedpoint s c) (\<lambda>s.
       res_bind (qcsched_window_shrink_window (qcsched_window_leave_footprint s c footprint_hit) c) ?rest))"
    proof (rule res_spec_bind [OF prune_spec [OF inv w(2) ih hh(4,1) w(3) fair(1,2)]])
      fix t
      assume t: "sched_inv t \<and> skel t = skel s \<and> w_from (window t c) = h \<and>
        (\<forall>j. own s c j \<and> h \<le> j \<longrightarrow> entry t j = entry s j)"
      then have sk: "skel t = skel s" by simp
      have "h \<in> installed_on t c"
        using t ih oh by (simp add: installed_on_def own_skel [OF sk])
      then show "res_spec b (\<lambda>u. sched_inv u \<and> env s u)
        (res_bind (qcsched_window_shrink_window (qcsched_window_leave_footprint t c footprint_hit) c) ?rest)"
        by (intro res_spec_bind [OF hit_spec rest])
          (use t wk fair in \<open>auto simp: worker_env [OF skel_env [OF sk]] io_ok_skel [OF sk] skelD [OF sk]\<close>)
    qed
    then show ?thesis
      using hit h og(3)
      by (simp add: handle_breakpoint_schedpoint_def task_kidnapped_def blocker_task_kidnapped_def Let_def)
  qed
qed

section \<open>The hook\<close>

lemma reinstall_hook_spec:
  assumes inv: "sched_inv s" and wk: "worker s c" and out: "hook_addr (vmi_info s) \<notin> hw_addrs s c"
    and ins: "kvm_insert_breakpoint_cpu s c (hook_addr (vmi_info s)) 1 GDB_BREAKPOINT_HW = (err, t)"
  shows "sched_inv t" and "env s t" and "io_ok s \<Longrightarrow> err = 0"
proof -
  note w = workerD [OF wk]
  have i: "core s c" "marks s c" "cursor s c" "quiet s c"
    using sched_invD [OF inv w(1)] w(2) by (auto simp: win_def)
  note fr = kvm_insert_breakpoint_cpu_frame [OF ins]
  note f = kvm_frame_simps [OF fr(1)]
  note sk = kvm_frame_skel [OF fr(1)]
  show "env s t" by (rule skel_env [OF sk])
  have on: "only c s t"
    using sk fr(2) f(1) by (simp add: only_def)
  have ion: "installed_on t c = installed_on s c"
    by (simp add: installed_on_def own_skel [OF sk] f(1))
  have "core t c"
    using i(1) w(2) kvm_insert_breakpoint_cpu_table [OF _ ins] by (auto simp: core_def ion f(1,2))
  moreover have "marks t c" "cursor t c"
    using i by (simp_all add: marks_def cursor_def left_ok_def ion f(1) own_skel [OF sk])
  moreover have "quiet t c"
    using i(4) wk by (auto simp: quiet_def worker_def closed_window_def f(1,3))
  ultimately show "sched_inv t"
    by (intro sched_inv_only [OF inv on]) (simp add: win_def)
  have "hw_addrs s c \<subseteq> (\<lambda>i. e_addr (entry s i)) ` installed_on s c"
    using i(1) out by (auto simp: core_def)
  then have "card (hw_addrs s c) \<le> card (installed_on s c)"
    by (meson card_image_le card_mono finite_imageI finite_installed_on le_trans)
  then have "card (hw_addrs s c) \<noteq> 4"
    using i(1) by (auto simp: core_def SCHEDPOINT_WINDOW_SIZE_def)
  then show "err = 0" if "io_ok s"
    using kvm_insert_breakpoint_cpu_result [of s c "hook_addr (vmi_info s)"] out i(1) that ins
    by (simp add: core_def io_ok_def)
qed

lemma running_context_True:
  assumes "qcsched_vmi_task s c = Ok k" and "vmi_scheduling_subject s k" and "qcsched_vmi_in_task s c = Ok True"
  shows "qcsched_vmi_running_context_being_scheduled s c True = Ok True"
  using assms by (simp add: qcsched_vmi_running_context_being_scheduled_def)

lemma hook_spec:
  assumes inv: "sched_inv s" and wk: "worker s c" and out: "hook_addr (vmi_info s) \<notin> hw_addrs s c"
    and "\<not> blocked (infos s c)" and "b \<Longrightarrow> qcsched_vmi_in_task s c = Ok True" and "b \<Longrightarrow> fair s c"
  shows "res_spec b (\<lambda>t. sched_inv t \<and> env s t) (handle_breakpoint_hook s c)"
proof -
  note w = workerD [OF wk]
  obtain err t where ins: "kvm_insert_breakpoint_cpu s c (hook_addr (vmi_info s)) 1 GDB_BREAKPOINT_HW = (err, t)"
    by fastforce
  note hk = reinstall_hook_spec [OF inv wk out ins]
  have ex: "res_spec b (\<lambda>t. sched_inv t \<and> env s t) (qcsched_window_expand_window s c)"
    by (rule res_spec_mono [OF expand_inv [OF inv wk]]) (use assms(6) in \<open>auto simp: fair_def host_ok_def\<close>)
  show ?thesis
  proof (cases "qcsched_vmi_task s c")
    case (Fault e)
    then show ?thesis
      using assms(6)
      by (auto simp: handle_breakpoint_hook_def qcsched_vmi_running_context_being_scheduled_def fair_def host_ok_def)
  next
    case (Ok k)
    have kid: "res_spec b (\<lambda>t. sched_inv t \<and> env s t) (kidnap_task s c)" if "vmi_scheduling_subject s k"
      by (rule kidnap_spec [OF inv assms(4)])
        (use assms(5,6) w(2,4) running_context_True [OF Ok that] in auto)
    have cur: "0 \<le> current (sched s) \<and> (b \<longrightarrow> current (sched s) < MAX_SCHEDPOINTS)"
      using inv assms(6) by (auto simp: sched_inv_def glob_def fair_def host_ok_def)
    show ?thesis
      using Ok ins hk ex kid assms(6) cur
      by (auto simp: handle_breakpoint_hook_def qcsched_vmi_running_context_being_scheduled_def
          qcsched_vmi_can_progress_def fair_def host_ok_def Let_def intro!: spec_rules)
  qed
qed

section \<open>The watchdog\<close>

lemma upd_record_inv:
  assumes "sched_inv s"
  shows "sched_inv (upd_record c f s)" and "env s (upd_record c f s)"
  by (rule sched_inv_cong [OF assms]; simp add: upd_record_def upd_sched_def)
    (simp add: env_def upd_record_def upd_sched_def)

text \<open>What the steps before the dispatch keep.\<close>

definition before :: "int \<Rightarrow> qstate \<Rightarrow> qstate \<Rightarrow> bool" where
  "before c s t \<longleftrightarrow> sched_inv t \<and> env s t \<and> infos t = infos s \<and> hw_addrs t c \<subseteq> hw_addrs s c \<and> armed_at t c"

lemma before_trans: "before c s t \<Longrightarrow> before c t u \<Longrightarrow> before c s u"
  by (auto simp: before_def intro: env_trans)

lemma before_closed:
  assumes "sched_inv s" and "worker s c" and "closed_by c s t"
  shows "before c s t"
proof -
  note w = workerD [OF assms(2)]
  have "quiet s c"
    using sched_invD(3) [OF assms(1) w(1)] w(2) by (simp add: win_def)
  then have "win t c"
    by (rule closed_by_win [OF assms(3) _ w(3)])
  moreover have on: "only c s t"
    using assms(3) by (simp add: closed_by_def)
  ultimately have "sched_inv t"
    using sched_inv_only [OF assms(1)] by blast
  then show ?thesis
    using assms(3) on skel_env [OF only_skel [OF on]] skelD(11) [OF only_skel [OF on]]
    by (auto simp: before_def closed_by_def armed_at_def closed_window_def own_def END_OF_SCHEDPOINT_WINDOW_def)
qed

lemma before_record:
  assumes "sched_inv s" and "armed_at s c"
  shows "before c s (upd_record c f s)"
proof -
  let ?t = "upd_record c f s"
  have "entries (sched ?t) = entries (sched s)" "window ?t = window s" "cpu_of ?t = cpu_of s"
    "infos ?t = infos s" "hw_breakpoint ?t = hw_breakpoint s"
    by (simp_all add: upd_record_def upd_sched_def)
  then show ?thesis
    using upd_record_inv [OF assms(1), of c f] assms(2) hw_cong(2) [of ?t c s]
    by (auto simp: before_def armed_at_def own_def)
qed

abbreviation hits :: "qstate \<Rightarrow> int \<Rightarrow> int" where
  "hits s c \<equiv> rec_count (last_breakpoint (sched s) c)"

lemma watchdog_spec:
  assumes inv: "sched_inv s" and wk: "worker s c" and at: "armed_at s c"
    and "b \<Longrightarrow> fair s c" and "b \<Longrightarrow> 0 \<le> hits s c \<and> hits s c + 1 < WATCHDOG_BREAKPOINT_COUNT_KILL_QEMU"
  shows "res_spec b (\<lambda>(_, t). before c s t \<and> (b \<longrightarrow> 0 \<le> hits t c \<and> hits t c \<le> hits s c + 1))
    (watchdog_breakpoint s c)"
proof (cases "rec_RIP (last_breakpoint (sched s) c) = RIP s c")
  case False
  then show ?thesis
    using before_record [OF inv at] assms(5)
    by (auto simp: watchdog_breakpoint_def watchdog_breakpoint_reset_def upd_record_def upd_sched_def)
next
  case True
  let ?t = "upd_record c (\<lambda>r. r\<lparr>rec_count := rec_count r + 1\<rparr>) s"
  have b1: "before c s ?t" by (rule before_record [OF inv at])
  then have e: "env s ?t" and it: "sched_inv ?t" by (auto simp: before_def)
  have cnt: "hits ?t c = hits s c + 1"
    by (simp add: upd_record_def upd_sched_def)
  have w: "worker ?t c" using wk worker_env [OF e] by simp
  note wt = workerD [OF w]
  have "glob ?t" "core ?t c" "marks ?t c"
    using sched_invD [OF it wt(1)] by (auto simp: win_def)
  then have cl: "res_spec b (closed_by c ?t) (close_and_update ?t c)"
    by (rule close_and_update_spec) (use assms(4) env_fair [OF e, of c] in \<open>auto simp: fair_def host_ok_def\<close>)
  have "res_spec b (\<lambda>(_, u). before c s u \<and> (b \<longrightarrow> 0 \<le> hits u c \<and> hits u c \<le> hits s c + 1))
      (res_bind (close_and_update ?t c) (\<lambda>s. Ok (True, s)))"
  proof (rule res_spec_bind [OF cl])
    fix u
    assume u: "closed_by c ?t u"
    have "last_breakpoint (sched u) = last_breakpoint (sched ?t)"
      using u by (auto simp: closed_by_def dest!: only_skel intro: skelD(8))
    then show "res_spec b (\<lambda>(_, u). before c s u \<and> (b \<longrightarrow> 0 \<le> hits u c \<and> hits u c \<le> hits s c + 1)) (Ok (True, u))"
      using before_trans [OF b1 before_closed [OF it w u]] cnt assms(5) by simp
  qed
  then show ?thesis
    using True b1 cnt assms(5)
    by (auto simp: watchdog_breakpoint_def watchdog_breakpoint_check_count_def Let_def intro!: spec_rules)
qed

section \<open>The handler\<close>

lemma before_sync:
  assumes "sched_inv s" and "worker s c" and "armed_at s c"
  shows "before c s (qcsched_window_sync s c)"
proof -
  note w = workerD [OF assms(2)]
  note i = sched_invD [OF assms(1) w(1)]
  note sy = sync_spec [OF i(1,3) w(2,3)]
  note e = skel_env [OF only_skel [OF sy(1)]]
  show ?thesis
    using sched_inv_only [OF assms(1) sy(1,2)] sy(3-5) e assms(3) skelD(11) [OF only_skel [OF sy(1)]]
    by (auto simp: before_def armed_at_def own_skel [OF only_skel [OF sy(1)]] envD(8) [OF e])
qed

lemma cleanup_before:
  assumes inv: "sched_inv s" and wk: "worker s c" and at: "armed_at s c" and "b \<Longrightarrow> fair s c"
  shows "res_spec b (before c s) (qcsched_window_cleanup_left_schedpoint s c)"
proof -
  note w = workerD [OF wk]
  note i = sched_invD [OF inv w(1)]
  show ?thesis
  proof (rule res_spec_mono [OF cleanup_spec [OF i(1,3) w(2,3)]])
    fix t
    assume t: "only c s t \<and> win t c \<and> w_from (window t c) = w_from (window s c) \<and>
      hw_addrs t c \<subseteq> hw_addrs s c \<and> (\<forall>i. own s c i \<and> w_from (window s c) \<le> i \<longrightarrow> entry t i = entry s i)"
    then have sk: "skel t = skel s" by (auto dest: only_skel)
    show "before c s t"
      using t at sched_inv_only [OF inv, of c t] skel_env [OF sk]
      by (simp add: before_def armed_at_def own_skel [OF sk] skelD [OF sk])
  qed (use assms(4) in \<open>auto simp: fair_def host_ok_def\<close>)
qed

lemma dispatch_spec:
  assumes inv: "sched_inv s" and wk: "worker s c" and at: "armed_at s c"
    and "RIP s c = hook_addr (vmi_info s) \<Longrightarrow> hook_addr (vmi_info s) \<notin> hw_addrs s c"
    and "\<not> blocked (infos s c)" and "b \<Longrightarrow> qcsched_vmi_in_task s c = Ok True" and "b \<Longrightarrow> fair s c"
  shows "res_spec b (\<lambda>t. sched_inv t \<and> env s t) (dispatch_breakpoint s c)"
proof (cases "breakpoint_on_hook s c")
  case True
  then show ?thesis
    using hook_spec [OF inv wk _ assms(5-7)] assms(4) by (simp add: dispatch_breakpoint_def breakpoint_on_hook_def)
next
  case False
  show ?thesis
  proof (cases "qcsched_vmi_task s c")
    case (Fault e)
    then show ?thesis
      using False assms(7) by (auto simp: dispatch_breakpoint_def breakpoint_on_schedpoint_def fair_def host_ok_def)
  next
    case (Ok k)
    let ?on = "list_ex (\<lambda>i. e_addr (entry s i) = RIP s c \<and> installed (entry s i) \<and>
        vmi_same_task k (e_task (entry s i))) [0..tot s - 1]"
    have "vmi_scheduling_subject s k" if ?on
      using that by (auto simp: vmi_scheduling_subject_def list_ex_iff)
    then have "res_spec b (\<lambda>t. sched_inv t \<and> env s t) (handle_breakpoint_schedpoint s c)" if ?on
      using schedpoint_spec [OF inv wk at] running_context_True [OF Ok] that assms(6,7) by blast
    then show ?thesis
      using False Ok inv by (simp add: dispatch_breakpoint_def breakpoint_on_schedpoint_def)
  qed
qed

text \<open>
  A CPU stops at its hook while the hook is armed, or at an entry of its own that is installed.
\<close>

definition trap :: "qstate \<Rightarrow> int \<Rightarrow> bool" where
  "trap s c \<longleftrightarrow> RIP s c = hook_addr (vmi_info s) \<and> hook_addr (vmi_info s) \<in> hw_addrs s c \<or>
     (\<exists>i\<in>installed_on s c. e_addr (entry s i) = RIP s c)"

lemma trap_worker:
  assumes "sched_inv s" and "c \<in> set (cpus s)" and "c \<noteq> 0" and "trap s c"
  shows "worker s c" and "armed_at s c"
proof -
  have i: "core s c" "quiet s c" "distinct_addrs s"
    using sched_invD [OF assms(1,2)] assms(3) by (auto simp: win_def)
  have "installed_on s c = {}" if "closed_window s c"
    using i(1) that card_0_eq [OF finite_installed_on] by (auto simp: core_def closed_window_def)
  then show "worker s c"
    using assms(2-4) i(2) by (auto simp: worker_def quiet_def trap_def)
  show "armed_at s c"
    unfolding armed_at_def
  proof (intro allI impI)
    fix i
    assume i': "own s c i \<and> e_addr (entry s i) = RIP s c \<and> w_from (window s c) \<le> i"
    then have "RIP s c \<noteq> hook_addr (vmi_info s)"
      using i(3) assms(3) by (metis distinct_addrs_def)
    then obtain j where j: "j \<in> installed_on s c" "e_addr (entry s j) = RIP s c"
      using assms(4) by (auto simp: trap_def)
    then have "own s c j" "e_addr (entry s j) \<noteq> QCSCHED_DUMMY_BREAKPOINT"
      using i(1) by (auto simp: installed_on_def core_def)
    then have "i = j"
      using i(3) i' j(2) assms(3) by (metis distinct_addrs_def)
    then show "installed (entry s i)"
      using j(1) by (simp add: installed_on_def)
  qed
qed

lemma remove_hit_spec:
  assumes inv: "sched_inv s" and wk: "worker s c" and at: "armed_at s c"
    and rem: "kvm_remove_breakpoint_cpu s c (RIP s c) 1 GDB_BREAKPOINT_HW = (err, t)"
  shows "before c s t" and "RIP s c \<notin> hw_addrs t c" and "last_breakpoint (sched t) = last_breakpoint (sched s)"
proof -
  note w = workerD [OF wk]
  have i: "core s c" "marks s c" "cursor s c" "quiet s c"
    using sched_invD [OF inv w(1)] w(2) by (auto simp: win_def)
  note fr = kvm_remove_breakpoint_cpu_frame [OF rem]
  note f = kvm_frame_simps [OF fr(1)]
  note sk = kvm_frame_skel [OF fr(1)]
  have hw: "hw_wf t c" "hw_addrs t c = hw_addrs s c - {RIP s c}"
    using kvm_remove_breakpoint_cpu_table [OF _ rem] i(1) by (auto simp: core_def)
  have on: "only c s t"
    using sk fr(2) f(1) by (simp add: only_def)
  have ion: "installed_on t c = installed_on s c"
    by (simp add: installed_on_def own_skel [OF sk] f(1))
  have "core t c"
    using i(1) hw w(2) by (auto simp: core_def ion f(1,2))
  moreover have "marks t c" "cursor t c"
    using i by (simp_all add: marks_def cursor_def left_ok_def ion f(1) own_skel [OF sk])
  moreover have "quiet t c"
    using i(4) wk by (auto simp: quiet_def worker_def closed_window_def f(1,3))
  ultimately have "sched_inv t"
    by (intro sched_inv_only [OF inv on]) (simp add: win_def)
  then show "before c s t"
    using skel_env [OF sk] hw(2) at f by (auto simp: before_def armed_at_def own_skel [OF sk])
  show "RIP s c \<notin> hw_addrs t c" "last_breakpoint (sched t) = last_breakpoint (sched s)"
    using hw(2) f(1) by auto
qed

text \<open>What the handler does once the watchdog has been asked: sync, clean up, dispatch.\<close>

lemma rest_spec:
  assumes wk: "worker t c" and nb: "\<not> blocked (infos t c)" and fr: "b \<Longrightarrow> fair t c" and it: "b \<Longrightarrow> qcsched_vmi_in_task t c = Ok True"
    and hk: "RIP t c \<notin> hw_addrs t c" and v: "before c t v"
  shows "res_spec b (\<lambda>(ret :: int, x). ret = 0 \<and> sched_inv x \<and> env t x)
    (res_bind (qcsched_window_cleanup_left_schedpoint (qcsched_window_sync v c) c) (\<lambda>s.
       if f then Ok (0, s) else res_bind (dispatch_breakpoint s c) (\<lambda>s. Ok (0, s))))"
proof -
  let ?P = "\<lambda>(ret :: int, x). ret = 0 \<and> sched_inv x \<and> env t x"
  have wv: "worker v c" "sched_inv v" "armed_at v c"
    using v wk by (auto simp: before_def worker_env)
  have bw: "before c t (qcsched_window_sync v c)"
    by (rule before_trans [OF v before_sync [OF wv(2,1,3)]])
  have "res_spec b (before c (qcsched_window_sync v c)) (qcsched_window_cleanup_left_schedpoint (qcsched_window_sync v c) c)"
    by (rule cleanup_before) (use bw wk fr in \<open>auto simp: before_def worker_env env_fair\<close>)
  then show ?thesis
  proof (rule res_spec_bind)
    fix u
    assume "before c (qcsched_window_sync v c) u"
    with bw have u: "before c t u" by (rule before_trans)
    then have e: "env t u" "sched_inv u" "infos u = infos t" by (auto simp: before_def)
    have "res_spec b (\<lambda>x. sched_inv x \<and> env u x) (dispatch_breakpoint u c)"
    proof (rule dispatch_spec)
      show "worker u c" "\<not> blocked (infos u c)" "b \<Longrightarrow> fair u c" "armed_at u c" "sched_inv u"
        using wk nb fr u by (auto simp: e worker_env [OF e(1)] env_fair [OF e(1)] before_def)
      show "b \<Longrightarrow> qcsched_vmi_in_task u c = Ok True"
        using it env_vmi(2) [OF e(1), of c] by simp
      show "hook_addr (vmi_info u) \<notin> hw_addrs u c" if "RIP u c = hook_addr (vmi_info u)"
        using u hk that envD(2,8) [OF e(1)] by (auto simp: before_def)
    qed
    then have "res_spec b ?P (res_bind (dispatch_breakpoint u c) (\<lambda>s. Ok (0, s)))"
      by (rule res_spec_bind) (use e(1) in \<open>auto intro: env_trans\<close>)
    then show "res_spec b ?P (if f then Ok (0, u) else res_bind (dispatch_breakpoint u c) (\<lambda>s. Ok (0, s)))"
      using e by simp
  qed
qed

lemma watched_spec:
  assumes inv: "sched_inv t" "armed_at t c" and wk: "worker t c" and nb: "\<not> blocked (infos t c)" and fr: "b \<Longrightarrow> fair t c"
    and it: "b \<Longrightarrow> qcsched_vmi_in_task t c = Ok True" and hk: "RIP t c \<notin> hw_addrs t c"
    and cnt: "b \<Longrightarrow> 0 \<le> hits t c \<and> hits t c + 2 < WATCHDOG_BREAKPOINT_COUNT_KILL_QEMU"
  shows "res_spec b (\<lambda>(ret :: int, x). ret = 0 \<and> sched_inv x \<and> env t x)
    (res_bind (watchdog_breakpoint t c) (\<lambda>(_, s). res_bind (watchdog_breakpoint s c) (\<lambda>(f, s).
       res_bind (qcsched_window_cleanup_left_schedpoint (qcsched_window_sync s c) c) (\<lambda>s.
         if f then Ok (0, s) else res_bind (dispatch_breakpoint s c) (\<lambda>s. Ok (0, s))))))"
proof -
  have second: "res_spec b (\<lambda>(_, v). before c u v) (watchdog_breakpoint u c)"
    if u: "before c t u" "b \<longrightarrow> 0 \<le> hits u c \<and> hits u c \<le> hits t c + 1" for u
  proof (rule res_spec_mono [OF watchdog_spec])
    show "sched_inv u" "armed_at u c" "worker u c" "b \<Longrightarrow> fair u c"
      using u(1) wk fr by (auto simp: before_def worker_env env_fair)
    show "b \<Longrightarrow> 0 \<le> hits u c \<and> hits u c + 1 < WATCHDOG_BREAKPOINT_COUNT_KILL_QEMU"
      using u(2) cnt by fastforce
  qed auto
  show ?thesis
  proof (rule res_spec_bind [OF watchdog_spec [OF inv(1) wk inv(2) fr]])
    show "b \<Longrightarrow> 0 \<le> hits t c \<and> hits t c + 1 < WATCHDOG_BREAKPOINT_COUNT_KILL_QEMU" using cnt by simp
  qed (auto split: prod.splits intro!: res_spec_bind [OF second] rest_spec [OF wk nb fr it hk] elim: before_trans)
qed

lemma iolocked_spec:
  assumes inv: "sched_inv s" and c: "c \<in> set (cpus s)" "c \<noteq> 0" and "trap s c" and nb: "\<not> blocked (infos s c)"
    and "b \<Longrightarrow> fair s c" and "b \<Longrightarrow> 0 \<le> hits s c \<and> hits s c + 2 < WATCHDOG_BREAKPOINT_COUNT_KILL_QEMU"
  shows "res_spec b (\<lambda>(ret, t). ret = 0 \<and> sched_inv t \<and> env s t) (qcsched_handle_breakpoint_iolocked s c)"
proof -
  let ?P = "\<lambda>(ret :: int, t). ret = 0 \<and> sched_inv t \<and> env s t"
  note wk = trap_worker [OF inv c assms(4)]
  obtain err t where rem: "kvm_remove_breakpoint_cpu s c (RIP s c) 1 GDB_BREAKPOINT_HW = (err, t)"
    by fastforce
  note rh = remove_hit_spec [OF inv wk rem]
  have t: "sched_inv t" "env s t" "armed_at t c" "worker t c" "b \<Longrightarrow> fair t c" "infos t = infos s" "RIP t c = RIP s c"
    using rh(1) wk(1) assms(6) envD(8) by (auto simp: before_def worker_env env_fair)
  have close: "res_spec b ?P (res_bind (close_and_update t c) (\<lambda>s. Ok (0, s)))"
  proof (rule res_spec_bind [OF close_and_update_spec])
    show "glob t" "core t c" "marks t c"
      using sched_invD [OF t(1), of c] workerD [OF t(4)] by (auto simp: win_def)
  next
    fix u
    assume "closed_by c t u"
    then have "before c s u"
      by (rule before_trans [OF rh(1) before_closed [OF t(1,4)]])
    then show "res_spec b ?P (Ok (0, u))" by (simp add: before_def)
  qed (use t(5) in \<open>auto simp: fair_def host_ok_def\<close>)
  note main = res_spec_mono [OF watched_spec [OF t(1,3,4) _ t(5)], where Q = ?P]
  have "b \<Longrightarrow> is_ok (qcsched_vmi_in_task t c)"
    using t(5) by (cases "qcsched_vmi_preempt_count t c") (auto simp: fair_def host_ok_def qcsched_vmi_in_task_def)
  then show ?thesis
    using rem close t nb rh(2,3) assms(7)
    by (cases "qcsched_vmi_in_task t c")
      (auto simp: qcsched_handle_breakpoint_iolocked_def intro!: main intro: env_trans)
qed

text \<open>Taking and dropping the lock, and counting the event, do not touch the invariant.\<close>

lemma sched_inv_lock:
  assumes "sched_inv s"
  shows "sched_inv (s\<lparr>iothread_locked := l\<rparr>)" "sched_inv (qcsched_eat_cookie s c k)" "sched_inv (upd_cpu c g s)"
  by (rule sched_inv_cong [OF assms]; cases k; simp add: upd_cpu_def)+

lemma handle_breakpoint_spec:
  assumes inv: "sched_inv s" and c: "c \<in> set (cpus s)" "c \<noteq> 0" and tr: "trap s c" and nb: "\<not> blocked (infos s c)"
    and "b \<Longrightarrow> host_ok s c" and "b \<Longrightarrow> \<not> iothread_locked s"
    and "b \<Longrightarrow> 0 \<le> hits s c \<and> hits s c + 2 < WATCHDOG_BREAKPOINT_COUNT_KILL_QEMU"
  shows "res_spec b (\<lambda>(ret, t). ret = 0 \<and> sched_inv t \<and> \<not> iothread_locked t \<and> cpus t = cpus s \<and> ext t = ext s \<and>
      phys_page t = phys_page s \<and> current_cpu t = current_cpu s) (qcsched_handle_breakpoint s c)"
proof -
  let ?u = "qcsched_eat_cookie (s\<lparr>iothread_locked := True\<rparr>) c cookie_breakpoint"
  have hw: "hw_addrs ?u c = hw_addrs s c"
    by (rule hw_cong) (simp add: upd_cpu_def)
  have rip: "RIP ?u c = RIP s c" "installed_on ?u c = installed_on s c"
    by (simp_all add: upd_cpu_def installed_on_def own_def)
  have rd: "qcsched_vmi_task ?u c = qcsched_vmi_task s c" "qcsched_vmi_preempt_count ?u c = qcsched_vmi_preempt_count s c"
    by (rule vmi_read_cong; simp add: upd_cpu_def)+
  have "res_spec b (\<lambda>(ret, t). ret = 0 \<and> sched_inv t \<and> env ?u t) (qcsched_handle_breakpoint_iolocked ?u c)"
  proof (rule iolocked_spec)
    show "sched_inv ?u" by (intro sched_inv_lock inv)
    have "hook_addr (vmi_info ?u) = hook_addr (vmi_info s)" "\<And>i. entry ?u i = entry s i" by (simp_all add: upd_cpu_def)
    then show "trap ?u c" using tr by (simp only: trap_def hw rip)
    show "b \<Longrightarrow> fair ?u c" using assms(6) by (simp only: fair_def host_ok_def rd) (simp add: io_ok_def upd_cpu_def)
  qed (use c nb assms(8) in \<open>simp_all add: upd_cpu_def\<close>)
  then have "res_spec b (\<lambda>(ret, t). ret = 0 \<and> sched_inv t \<and> \<not> iothread_locked t \<and> cpus t = cpus s \<and> ext t = ext s \<and>
      phys_page t = phys_page s \<and> current_cpu t = current_cpu s)
      (res_bind (qcsched_handle_breakpoint_iolocked ?u c)
         (\<lambda>(ret, s). res_bind (qemu_mutex_unlock_iothread s) (\<lambda>s. Ok (ret, s))))"
    by (rule res_spec_bind)
      (auto simp: qemu_mutex_unlock_iothread_def g_assert_def upd_cpu_def envD(1,3,5,6,7) intro!: sched_inv_lock)
  then show ?thesis
    unfolding qcsched_handle_breakpoint_def qemu_mutex_lock_iothread_def res_bind_assoc
    by (intro res_spec_bind_g_assert) (use assms(7) in auto)
qed

end
