(* ===== verification/Kssb.thy ===== *)
theory Kssb
  imports Vmi
begin

text \<open>
  Switching the store-buffer emulation of the guest kernel on and off
  (\<^verbatim>\<open>qcsched/kssb.c\<close>): one byte of guest memory, written with the machine stopped.
\<close>

definition qcsched_rw_ssb_do_emulate :: "qstate \<Rightarrow> int \<Rightarrow> u8 \<Rightarrow> (bool \<times> qstate) res" where
  "qcsched_rw_ssb_do_emulate s c enable =
     (let ptr = vmi_ssb_do_emulate (vmi_info s) in
      if ptr = 0 then Ok (False, s)
      else let (r, _, s) = cpu_memory_rw_debug s c ptr [enable] True in
           if r \<noteq> 0 then Fault Assert_fail else Ok (True, s))"

definition is_vcpu_deactivated :: "qstate \<Rightarrow> int \<Rightarrow> bool" where
  "is_vcpu_deactivated s c \<longleftrightarrow>
     \<not> qcsched_check_cpu_state s c qcsched_cpu_ready \<or> qcsched_check_cpu_state s c qcsched_cpu_deactivated"

definition is_all_vcpus_deactivated :: "qstate \<Rightarrow> bool" where
  "is_all_vcpus_deactivated s \<longleftrightarrow> list_all (is_vcpu_deactivated s) (cpus s)"

definition qcsched_enable_kssb :: "qstate \<Rightarrow> int \<Rightarrow> (u64 \<times> qstate) res" where
  "qcsched_enable_kssb s c =
     (if \<not> kssb_enabled (sched s)
      then res_bind (qcsched_rw_ssb_do_emulate s c 1) (\<lambda>(ok, s).
             Ok (if ok then 0 else ulong_of_int (- EINVAL), upd_sched (\<lambda>q. q\<lparr>kssb_enabled := ok\<rparr>) s))
      else Ok (0, s))"

text \<open>\<^verbatim>\<open>vm_stop\<close>, \<^verbatim>\<open>vm_prepare_start\<close> and \<^verbatim>\<open>resume_all_vcpus\<close>, as far as \<open>vm_running\<close> goes.\<close>

definition vm_stop :: "qstate \<Rightarrow> qstate" where
  "vm_stop s = s\<lparr>vm_running := False\<rparr>"

definition vm_restart :: "qstate \<Rightarrow> qstate" where
  "vm_restart s = s\<lparr>vm_running := True\<rparr>"

definition qcsched_disable_kssb :: "qstate \<Rightarrow> int \<Rightarrow> (u64 \<times> qstate) res" where
  "qcsched_disable_kssb s c =
     (if \<not> kssb_enabled (sched s) then Ok (0, s)
      else if \<not> is_all_vcpus_deactivated s then Ok (ulong_of_int (- EAGAIN), s)
      else res_bind (qcsched_rw_ssb_do_emulate (vm_stop s) c 0) (\<lambda>(ok, s).
             Ok (if ok then 0 else ulong_of_int (- EINVAL),
                 upd_sched (\<lambda>q. q\<lparr>kssb_enabled := \<not> ok\<rparr>) (vm_restart s))))"

end
