(* ===== verification/Hcall.thy ===== *)
theory Hcall
  imports Breakpoint Kssb
begin

text \<open>
  The hypercalls (\<^verbatim>\<open>qcsched/hcall.c\<close>) with which the guest hands over a schedule,
  starts and ends it, and collects its footprints.
\<close>

definition HCALL_PREPARE :: u64 where "HCALL_PREPARE = 0x23564d5a"
definition HCALL_INSTALL_BP :: u64 where "HCALL_INSTALL_BP = 0xf477909a"
definition HCALL_ACTIVATE_BP :: u64 where "HCALL_ACTIVATE_BP = 0x40ab903"
definition HCALL_DEACTIVATE_BP :: u64 where "HCALL_DEACTIVATE_BP = 0xf327524f"
definition HCALL_FOOTPRINT_BP :: u64 where "HCALL_FOOTPRINT_BP = 0xd677b5d9"
definition HCALL_CLEAR_BP :: u64 where "HCALL_CLEAR_BP = 0xba220681"
definition HCALL_VMI_HINT :: u64 where "HCALL_VMI_HINT = 0x7ca889f0"
definition HCALL_ENABLE_KSSB :: u64 where "HCALL_ENABLE_KSSB = 0x3dcb4536"
definition HCALL_DISABLE_KSSB :: u64 where "HCALL_DISABLE_KSSB = 0xbed348f5"
definition HCALL_RESET :: u64 where "HCALL_RESET = 0x3e444ddf"

lemmas hcall_cmd_defs = HCALL_PREPARE_def HCALL_INSTALL_BP_def HCALL_ACTIVATE_BP_def
  HCALL_DEACTIVATE_BP_def HCALL_FOOTPRINT_BP_def HCALL_CLEAR_BP_def HCALL_VMI_HINT_def
  HCALL_ENABLE_KSSB_def HCALL_DISABLE_KSSB_def HCALL_RESET_def

definition qcsched_entry_used :: "qcsched_entry \<Rightarrow> bool" where
  "qcsched_entry_used e \<longleftrightarrow> e_addr e \<noteq> 0"

definition sanitize_breakpoint :: "qcsched \<Rightarrow> bool" where
  "sanitize_breakpoint q \<longleftrightarrow>
     (if total q = 0 then False
      else list_all (\<lambda>i. qcsched_entry_used (entries q i)) [0..total q - 1])"

section \<open>Reset\<close>

definition escape_if_kidnapped :: "qstate \<Rightarrow> int \<Rightarrow> int \<Rightarrow> qstate" where
  "escape_if_kidnapped s c wakeup =
     reset_exec_control (if task_kidnapped s wakeup then wake_cpu_up s c wakeup else s) wakeup"

definition remove_breakpoints_and_escape_cpu :: "qstate \<Rightarrow> int \<Rightarrow> int \<Rightarrow> qstate res" where
  "remove_breakpoints_and_escape_cpu s this remote =
     res_bind (c_assert (\<not> activated (sched s)) s) (\<lambda>s.
       Ok (escape_if_kidnapped
            (fold (\<lambda>i s. if e_cpu (entry s i) = remote
                         then snd (kvm_remove_breakpoint_cpu s remote (e_addr (entry s i)) 1 GDB_BREAKPOINT_HW)
                         else s) [0..tot s - 1] s)
            this remote))"

definition qcsched_reset_window :: "qstate \<Rightarrow> int \<Rightarrow> qstate" where
  "qcsched_reset_window s c =
     upd_window c (\<lambda>w. w\<lparr>w_total := 0, w_activated := 0, w_from := END_OF_SCHEDPOINT_WINDOW,
       w_until := END_OF_SCHEDPOINT_WINDOW, w_left_behind := END_OF_SCHEDPOINT_WINDOW, w_cpu := c\<rparr>) s"

definition qcsched_reset_cookie :: "qstate \<Rightarrow> int \<Rightarrow> qstate" where
  "qcsched_reset_cookie s c =
     upd_cpu c (\<lambda>p. p\<lparr>breakpoint_cookie := 0, hcall_cookie := 0, timer_cookie := 0\<rparr>) s"

definition reset_one :: "int \<Rightarrow> int \<Rightarrow> qstate \<Rightarrow> qstate res" where
  "reset_one c c0 s =
     (if c0 = 0 then Ok s
      else res_bind (if \<not> qcsched_check_cpu_state s c0 qcsched_cpu_deactivated
                     then remove_breakpoints_and_escape_cpu s c c0 else Ok s) (\<lambda>s.
             let s = upd_record c0 (\<lambda>r. \<lparr>rec_RIP = 0, rec_count = 0\<rparr>) s;
                 s = qcsched_set_cpu_state s c0 qcsched_cpu_idle;
                 s = qcsched_reset_window s c0;
                 s = qcsched_reset_cookie s c0
             in Ok (qcsched_vmi_lock_info_reset s c0)))"

definition zero_entries :: "(int \<Rightarrow> qcsched_entry) \<Rightarrow> int \<Rightarrow> qcsched_entry" where
  "zero_entries es i = (if 0 \<le> i \<and> i < MAX_SCHEDPOINTS then zero_entry else es i)"

definition qcsched_reset :: "qstate \<Rightarrow> int \<Rightarrow> qstate res" where
  "qcsched_reset s c =
     (let s = upd_sched (\<lambda>q. q\<lparr>used := True, activated := False\<rparr>) s in
      res_bind (foreach (cpus s) (reset_one c) s) (\<lambda>s.
        let s = upd_sched (\<lambda>q. q\<lparr>total := 0, current := 0, nr_cpus := 0,
                  entries := zero_entries (entries q)\<rparr>) s;
            s = s\<lparr>warn_once := False\<rparr>
        in res_bind (qcsched_disable_kssb s c) (\<lambda>(_, s). Ok s)))"

section \<open>Handing over a schedule\<close>

definition qcsched_prepare :: "qstate \<Rightarrow> u32 \<Rightarrow> u32 \<Rightarrow> u64 \<times> qstate" where
  "qcsched_prepare s nr_bps nr_cps =
     (let orig = nr_bps in
      if tot s \<noteq> 0 then (ulong_of_int (- EBUSY), s)
      else if hook_addr (vmi_info s) = 0 then (ulong_of_int (- EINVAL), s)
      else if nr_cps \<ge> word_of_int MAX_CPUS then (ulong_of_int (- EINVAL), s)
      else
        let nr_bps = (if nr_bps > word_of_int MAX_SCHEDPOINTS then word_of_int MAX_SCHEDPOINTS else nr_bps)
        in (0, upd_sched (\<lambda>q. q\<lparr>total := int_of_u32 nr_bps, orig_nr_bps := int_of_u32 orig,
                 nr_cpus := int_of_u32 nr_cps, used := False\<rparr>) s))"

text \<open>
  The argument \<^verbatim>\<open>footprint\<close> arrives as a number and is normalised to
  \<^verbatim>\<open>footprint_missed\<close> or \<^verbatim>\<open>footprint_preserved\<close>.
\<close>

definition qcsched_install_breakpoint :: "qstate \<Rightarrow> int \<Rightarrow> u64 \<Rightarrow> int \<Rightarrow> u32 \<Rightarrow> (u64 \<times> qstate) res" where
  "qcsched_install_breakpoint s c addr order fp_arg =
     res_bind (c_assert (tot s \<le> orig_nr_bps (sched s)) s) (\<lambda>s.
       if tot s = 0 then Ok (ulong_of_int (- EINVAL), s)
       else if orig_nr_bps (sched s) \<le> order then Ok (ulong_of_int (- EINVAL), s)
       else if qcsched_check_cpu_state s c qcsched_cpu_ready then Ok (ulong_of_int (- EINVAL), s)
       else if tot s \<le> order then Ok (0, s)
       else if order < 0 then Fault Out_of_bounds
       else if qcsched_entry_used (entry s order) then Ok (ulong_of_int (- EBUSY), s)
       else
         let fp = (if fp_arg \<noteq> 1 then footprint_preserved else footprint_missed);
             s = upd_entry order (\<lambda>e. e\<lparr>schedpoint := \<lparr>sp_addr = addr, sp_order = order, sp_footprint = fp\<rparr>,
                   e_cpu := c\<rparr>) s
         in res_bind (qcsched_vmi_task s c) (\<lambda>t.
              let s = upd_entry order (\<lambda>e. e\<lparr>e_task := t\<rparr>) s;
                  w = window s c
              in if (w_from w = END_OF_SCHEDPOINT_WINDOW \<or> w_from w > order) \<and> fp = footprint_preserved
                 then Ok (0, upd_window c (\<lambda>w. w\<lparr>w_from := order, w_until := order\<rparr>) s)
                 else Ok (0, s)))"

section \<open>Starting and ending it\<close>

definition sched_init_once :: "qstate \<Rightarrow> qstate" where
  "sched_init_once s =
     (if activated (sched s) then s
      else
        let s = upd_sched (\<lambda>q. q\<lparr>activated := True\<rparr>) s
        in case List.find (\<lambda>i. e_footprint (entry s i) = footprint_preserved) [0..tot s - 1] of
             Some i \<Rightarrow> upd_sched (\<lambda>q. q\<lparr>current := i\<rparr>) s
           | None \<Rightarrow> upd_sched (\<lambda>q. q\<lparr>current := tot s\<rparr>) s)"

definition do_activate_breakpoint :: "qstate \<Rightarrow> int \<Rightarrow> qstate res" where
  "do_activate_breakpoint s c =
     (if c = 0 then Ok s
      else
        let s = sched_init_once s;
            own = filter (\<lambda>i. e_cpu (entry s i) = c) [0..tot s - 1];
            s = upd_window c (\<lambda>w. w\<lparr>w_total := w_total w + int (length own)\<rparr>) s
        in if own = [] then Ok s
           else let (err, s) = kvm_insert_breakpoint_cpu s c (hook_addr (vmi_info s)) 1 GDB_BREAKPOINT_HW
                in c_assert (err = 0) s)"

definition qcsched_activate_breakpoint :: "qstate \<Rightarrow> int \<Rightarrow> (u64 \<times> qstate) res" where
  "qcsched_activate_breakpoint s c =
     (if used (sched s) then Ok (ulong_of_int (- EINVAL), s)
      else if qcsched_check_cpu_state s c qcsched_cpu_activated then Ok (ulong_of_int (- EINVAL), s)
      else
        let s = qcsched_set_cpu_state s c qcsched_cpu_ready in
        res_bind (qcsched_check_all_cpu_state s qcsched_cpu_ready) (\<lambda>all_ready.
          if \<not> all_ready then Ok (ulong_of_int (- EAGAIN), s)
          else if \<not> sanitize_breakpoint (sched s) then Ok (ulong_of_int (- EINVAL), s)
          else res_bind (qcsched_cpu_transition s c qcsched_cpu_ready qcsched_cpu_activated) (\<lambda>(ok, s).
                 if \<not> ok then Ok (ulong_of_int (- EINVAL), s)
                 else res_bind (do_activate_breakpoint s c) (\<lambda>s. Ok (0, s)))))"

definition qcsched_deactivate_breakpoint :: "qstate \<Rightarrow> int \<Rightarrow> (u64 \<times> qstate) res" where
  "qcsched_deactivate_breakpoint s c =
     (if \<not> qcsched_check_cpu_state s c qcsched_cpu_ready then Ok (ulong_of_int (- EINVAL), s)
      else
        res_bind (qcsched_window_close_window (qcsched_set_cpu_state s c qcsched_cpu_deactivated) c) (\<lambda>s.
          if \<not> activated (sched s) then Ok (0, s)
          else
            let s = upd_sched (\<lambda>q. q\<lparr>activated := False, used := True\<rparr>) s
            in res_bind (foreach (cpus s)
                 (\<lambda>c0 s. if c0 = 0 then Ok s else remove_breakpoints_and_escape_cpu s c c0) s)
                 (\<lambda>s. Ok (0, s))))"

section \<open>Footprints\<close>

text \<open>The loop's state: the offset \<^verbatim>\<open>idx\<close>, the counters \<^verbatim>\<open>cntul\<close> and
  \<^verbatim>\<open>retryul\<close>, and the guest's memory.\<close>

fun footprint_loop ::
  "int \<Rightarrow> u64 \<Rightarrow> int list \<Rightarrow> u64 \<Rightarrow> u64 \<Rightarrow> u64 \<Rightarrow> qstate \<Rightarrow> bool \<times> u64 \<times> u64 \<times> qstate" where
  "footprint_loop c data_uptr [] idx cntul retryul s = (True, cntul, retryul, s)"
| "footprint_loop c data_uptr (i # is) idx cntul retryul s =
     (if e_cpu (entry s i) \<noteq> c then footprint_loop c data_uptr is idx cntul retryul s
      else
        let fp = e_footprint (entry s i);
            retryul = (if fp = footprint_not_addressed \<or> fp = footprint_dropped then 1 else retryul);
            (err, _, s) = cpu_memory_rw_debug s c (data_uptr + idx) (le_bytes 8 (footprint_code fp)) True
        in if err \<noteq> 0 then (False, cntul, retryul, s)
           else footprint_loop c data_uptr is (idx + 8) (cntul + 1) retryul s)"

definition qcsched_footprint_breakpoint :: "qstate \<Rightarrow> int \<Rightarrow> u64 \<Rightarrow> u64 \<Rightarrow> u64 \<Rightarrow> u64 \<times> qstate" where
  "qcsched_footprint_breakpoint s c cnt_uptr data_uptr retry_uptr =
     (if \<not> qcsched_check_cpu_state s c qcsched_cpu_deactivated then (ulong_of_int (- EINVAL), s)
      else
        let (ok, cntul, retryul, s) = footprint_loop c data_uptr [0..tot s - 1] 0 0 0 s
        in if \<not> ok then (ulong_of_int (- EFAULT), s)
           else let (err, _, s) = cpu_memory_rw_debug s c cnt_uptr (le_bytes 8 cntul) True
                in if err \<noteq> 0 then (ulong_of_int (- EFAULT), s)
                   else let (err, _, s) = cpu_memory_rw_debug s c retry_uptr (le_bytes 8 retryul) True
                        in if err \<noteq> 0 then (ulong_of_int (- EFAULT), s) else (0, s))"

definition qcsched_clear_breakpoint :: "qstate \<Rightarrow> int \<Rightarrow> (u64 \<times> qstate) res" where
  "qcsched_clear_breakpoint s c =
     (if activated (sched s) then Ok (ulong_of_int (- EBUSY), s)
      else res_bind (qcsched_cpu_transition s c qcsched_cpu_deactivated qcsched_cpu_idle) (\<lambda>(ok, s).
             if \<not> ok then Ok (ulong_of_int (- EINVAL), s)
             else
               let s = fold (\<lambda>i s. if e_cpu (entry s i) \<noteq> c then s else upd_entry i (\<lambda>_. zero_entry) s)
                         [0..tot s - 1] s
               in Ok (0, kvm_remove_all_breakpoints_cpu s c)))"

section \<open>The dispatcher\<close>

definition qcsched_jumped_into_trampoline :: "qstate \<Rightarrow> int \<Rightarrow> bool" where
  "qcsched_jumped_into_trampoline s c = False"

definition skip_executed_vmcall :: "qstate \<Rightarrow> int \<Rightarrow> qstate" where
  "skip_executed_vmcall s c = upd_cpu c (\<lambda>p. p\<lparr>regs := (regs p)\<lparr>rip := rip (regs p) + 3\<rparr>\<rparr>) s"

definition commit_state :: "qstate \<Rightarrow> int \<Rightarrow> u64 \<Rightarrow> qstate" where
  "commit_state s c hcall_ret =
     upd_cpu c (\<lambda>p. p\<lparr>regs := (regs p)\<lparr>rax := hcall_ret\<rparr>, qcsched_dirty := True\<rparr>)
       (skip_executed_vmcall s c)"

definition dispatch_hcall :: "qstate \<Rightarrow> int \<Rightarrow> (nat \<Rightarrow> u64) \<Rightarrow> (u64 \<times> qstate) res" where
  "dispatch_hcall s c args =
     (let cmd = args 0 in
      if cmd = HCALL_RESET then res_bind (qcsched_reset s c) (\<lambda>s. Ok (0, s))
      else if cmd = HCALL_PREPARE then Ok (qcsched_prepare s (ucast (args 1)) (ucast (args 2)))
      else if cmd = HCALL_INSTALL_BP
      then qcsched_install_breakpoint s c (args 1) (int_of_u64 (args 2)) (ucast (args 3))
      else if cmd = HCALL_ACTIVATE_BP then qcsched_activate_breakpoint s c
      else if cmd = HCALL_DEACTIVATE_BP then qcsched_deactivate_breakpoint s c
      else if cmd = HCALL_FOOTPRINT_BP
      then Ok (qcsched_footprint_breakpoint s c (args 1) (args 2) (args 3))
      else if cmd = HCALL_CLEAR_BP then qcsched_clear_breakpoint s c
      else if cmd = HCALL_VMI_HINT then Ok (qcsched_vmi_hint s c (args 1) (args 2) (args 3))
      else if cmd = HCALL_ENABLE_KSSB then qcsched_enable_kssb s c
      else if cmd = HCALL_DISABLE_KSSB then qcsched_disable_kssb s c
      else Ok (ulong_of_int (- EINVAL), s))"

definition qcsched_handle_hcall :: "qstate \<Rightarrow> int \<Rightarrow> (nat \<Rightarrow> u64) \<Rightarrow> qstate res" where
  "qcsched_handle_hcall s c args =
     res_bind (qemu_mutex_lock_iothread s) (\<lambda>s.
       res_bind (dispatch_hcall (qcsched_eat_cookie s c cookie_hcall) c args) (\<lambda>(ret, s).
         res_bind (qemu_mutex_unlock_iothread s) (\<lambda>s.
           if \<not> qcsched_jumped_into_trampoline s c then Ok (commit_state s c ret) else Ok s)))"

end
