(* ===== verification/Reset_Inv.thy ===== *)
theory Reset_Inv
  imports Breakpoint_Inv Hcall
begin

text \<open>
  The loop of \<^verbatim>\<open>qcsched_reset\<close> over the CPUs: it leaves a machine with an empty schedule, on
  which the invariant holds.
\<close>

section \<open>Removing breakpoints and freeing a CPU\<close>

lemma remove_entries_spec:
  fixes xs s d
  defines "t \<equiv> fold (\<lambda>i s. if e_cpu (entry s i) = d
      then snd (kvm_remove_breakpoint_cpu s d (e_addr (entry s i)) 1 GDB_BREAKPOINT_HW) else s) xs s"
  assumes "hw_wf s d"
  shows "kvm_frame s t" "\<And>e. e \<noteq> d \<Longrightarrow> hw_breakpoint t e = hw_breakpoint s e" "hw_wf t d"
    "hw_addrs t d = hw_addrs s d - (\<lambda>i. e_addr (entry s i)) ` {i\<in>set xs. e_cpu (entry s i) = d}"
proof -
  have "kvm_frame s t \<and> (\<forall>e. e \<noteq> d \<longrightarrow> hw_breakpoint t e = hw_breakpoint s e) \<and> hw_wf t d \<and>
    hw_addrs t d = hw_addrs s d - (\<lambda>i. e_addr (entry s i)) ` {i\<in>set xs. e_cpu (entry s i) = d}"
    using assms(2) unfolding t_def
  proof (induction xs arbitrary: s)
    case Nil
    then show ?case by simp
  next
    case (Cons i xs)
    show ?case
    proof (cases "e_cpu (entry s i) = d")
      case True
      obtain err u where u: "kvm_remove_breakpoint_cpu s d (e_addr (entry s i)) 1 GDB_BREAKPOINT_HW = (err, u)"
        by fastforce
      note f = kvm_remove_breakpoint_cpu_frame [OF u] and tb = kvm_remove_breakpoint_cpu_table [OF Cons.prems u]
      have sc: "sched u = sched s" using kvm_frame_simps(1) [OF f(1)] .
      have "{j\<in>set (i # xs). e_cpu (entry s j) = d} = insert i {j\<in>set xs. e_cpu (entry s j) = d}"
        using True by auto
      then show ?thesis
        using Cons.IH [OF tb(1)] True u f tb by (auto simp: sc kvm_frame_def)
    next
      case False
      then have "{j\<in>set (i # xs). e_cpu (entry s j) = d} = {j\<in>set xs. e_cpu (entry s j) = d}"
        by auto
      then show ?thesis
        using Cons.IH [OF Cons.prems] False by simp
    qed
  qed
  then show "kvm_frame s t" "\<And>e. e \<noteq> d \<Longrightarrow> hw_breakpoint t e = hw_breakpoint s e" "hw_wf t d"
    "hw_addrs t d = hw_addrs s d - (\<lambda>i. e_addr (entry s i)) ` {i\<in>set xs. e_cpu (entry s i) = d}"
    by auto
qed

text \<open>From \<open>s\<close> to \<open>t\<close> CPU \<open>d\<close> lost the breakpoints of its entries and is free to run.\<close>

definition escaped :: "int \<Rightarrow> qstate \<Rightarrow> qstate \<Rightarrow> bool" where
  "escaped d s t \<longleftrightarrow> kvm_frame (s\<lparr>infos := infos t\<rparr>) t \<and>
     infos t = (infos s)(d := (infos s d)\<lparr>blocked := False, waking_up := False\<rparr>) \<and>
     (\<forall>e. e \<noteq> d \<longrightarrow> hw_breakpoint t e = hw_breakpoint s e) \<and> hw_wf t d \<and>
     hw_addrs t d = hw_addrs s d - (\<lambda>i. e_addr (entry s i)) ` {i. 0 \<le> i \<and> i < tot s \<and> e_cpu (entry s i) = d}"

lemma remove_and_escape_spec:
  assumes "hw_wf s d" and "\<not> activated (sched s)"
  shows "res_spec b (escaped d s) (remove_breakpoints_and_escape_cpu s c d)"
proof -
  let ?t = "fold (\<lambda>i s. if e_cpu (entry s i) = d
      then snd (kvm_remove_breakpoint_cpu s d (e_addr (entry s i)) 1 GDB_BREAKPOINT_HW) else s) [0..tot s - 1] s"
  note r = remove_entries_spec [OF assms(1), where xs = "[0..tot s - 1]"]
  have "{i\<in>set [0..tot s - 1]. e_cpu (entry s i) = d} = {i. 0 \<le> i \<and> i < tot s \<and> e_cpu (entry s i) = d}"
    by auto
  moreover have "hw_breakpoint (escape_if_kidnapped ?t c d) = hw_breakpoint ?t"
    by (simp add: escape_if_kidnapped_def reset_exec_control_def blocker_reset_def wake_cpu_up_def
        blocker_wake_cpu_up_def upd_info_def)
  moreover have "kvm_frame (s\<lparr>infos := infos (escape_if_kidnapped ?t c d)\<rparr>) (escape_if_kidnapped ?t c d)"
    "infos (escape_if_kidnapped ?t c d) = (infos s)(d := (infos s d)\<lparr>blocked := False, waking_up := False\<rparr>)"
    using r(1) by (auto simp: kvm_frame_def escape_if_kidnapped_def reset_exec_control_def blocker_reset_def
        wake_cpu_up_def blocker_wake_cpu_up_def upd_info_def)
  ultimately have "escaped d s (escape_if_kidnapped ?t c d)"
    using r hw_cong [of "escape_if_kidnapped ?t c d" d ?t] by (simp add: escaped_def)
  then show ?thesis
    using assms(2) by (simp add: remove_breakpoints_and_escape_cpu_def)
qed

section \<open>Reset\<close>

text \<open>
  What a reset needs: the tables of a worker hold breakpoints of its entries only. The static
  initial state satisfies it, and so does every state of the invariant in which the hook is not armed.
\<close>

definition resettable :: "qstate \<Rightarrow> bool" where
  "resettable s \<longleftrightarrow> distinct (cpus s) \<and> 0 \<in> set (cpus s) \<and> set (cpus s) \<subseteq> {0..<MAX_CPUS} \<and>
     (\<forall>c. waking_up (infos s c) \<longrightarrow> blocked (infos s c)) \<and> (\<forall>c. lock_count (lock_info (vmi_info s) c) = 0) \<and>
     w_cpu (window s 0) = 0 \<and> w_activated (window s 0) = 0 \<and> w_total (window s 0) = 0 \<and>
     hw_addrs s 0 = {} \<and> \<not> blocked (infos s 0) \<and> (\<forall>c\<in>set (cpus s). hw_wf s c) \<and>
     (\<forall>c\<in>set (cpus s) - {0}. if cpu_state (sched s) c = qcsched_cpu_deactivated
        then hw_addrs s c = {} \<and> \<not> blocked (infos s c)
        else hw_addrs s c \<subseteq> (\<lambda>i. e_addr (entry s i)) ` {i. 0 \<le> i \<and> i < tot s \<and> e_cpu (entry s i) = c})"

lemma resettable_boot:
  assumes "distinct cs" and "0 \<in> set cs" and "set cs \<subseteq> {0..<MAX_CPUS}"
  shows "resettable (boot_state cs pages mem x)"
  using assms by (simp add: resettable_def boot_defs hw_addrs_def hw_wf_def)

lemma resettable_inv:
  assumes "sched_inv s" and "\<And>c. c \<in> set (cpus s) \<Longrightarrow> c \<noteq> 0 \<Longrightarrow> hook_addr (vmi_info s) \<notin> hw_addrs s c"
  shows "resettable s"
proof -
  have gl: "glob s" using assms(1) by (simp add: sched_inv_def)
  have w: "win s c" if "c \<in> set (cpus s)" for c
    using assms(1) that by (simp add: sched_inv_def)
  have "hw_addrs s c \<subseteq> (\<lambda>i. e_addr (entry s i)) ` {i. 0 \<le> i \<and> i < tot s \<and> e_cpu (entry s i) = c}"
    if c: "c \<in> set (cpus s)" "c \<noteq> 0" for c
  proof -
    have "installed_on s c \<subseteq> {i. 0 \<le> i \<and> i < tot s \<and> e_cpu (entry s i) = c}"
      using own_iff [OF gl c(2)] by (auto simp: installed_on_def)
    moreover have "hw_addrs s c \<subseteq> (\<lambda>i. e_addr (entry s i)) ` installed_on s c"
      using w [OF c(1)] assms(2) [OF c] unfolding win_def core_def by blast
    ultimately show ?thesis by blast
  qed
  moreover have "hw_addrs s c = {} \<and> \<not> blocked (infos s c)"
    if "c \<in> set (cpus s)" "c \<noteq> 0" "cpu_state (sched s) c = qcsched_cpu_deactivated" for c
    using w [OF that(1)] that assms(2) [OF that(1,2)]
    by (auto simp: win_def core_def quiet_def closed_window_def card_eq_0_iff)
  moreover have "0 \<in> set (cpus s)"
    using gl by (simp add: glob_def)
  ultimately show ?thesis
    using gl w w [of 0] by (auto simp: resettable_def glob_def win_def core_def)
qed

text \<open>The loop over the CPUs, after the CPUs in \<open>D\<close>.\<close>

definition reset_on :: "int set \<Rightarrow> qstate \<Rightarrow> qstate \<Rightarrow> bool" where
  "reset_on D s t \<longleftrightarrow>
     cpus t = cpus s \<and> entries (sched t) = entries (sched s) \<and> tot t = tot s \<and> ext t = ext s \<and>
     \<not> activated (sched t) \<and> used (sched t) \<and> kssb_enabled (sched t) = kssb_enabled (sched s) \<and>
     hook_addr (vmi_info t) = hook_addr (vmi_info s) \<and> vmi_ssb_do_emulate (vmi_info t) = vmi_ssb_do_emulate (vmi_info s) \<and>
     phys_page t = phys_page s \<and> pmem t = pmem s \<and> iothread_locked t = iothread_locked s \<and>
     (\<forall>c. lock_count (lock_info (vmi_info t) c) = 0) \<and> (\<forall>c. waking_up (infos t c) \<longrightarrow> blocked (infos t c)) \<and>
     (\<forall>c. c \<notin> D - {0} \<longrightarrow> window t c = window s c \<and> hw_breakpoint t c = hw_breakpoint s c \<and>
        infos t c = infos s c \<and> cpu_state (sched t) c = cpu_state (sched s) c) \<and>
     (\<forall>c\<in>D - {0}. cpu_state (sched t) c = qcsched_cpu_idle \<and> \<not> blocked (infos t c) \<and>
        w_total (window t c) = 0 \<and> w_activated (window t c) = 0 \<and> w_from (window t c) = END_OF_SCHEDPOINT_WINDOW \<and>
        w_until (window t c) = END_OF_SCHEDPOINT_WINDOW \<and> w_left_behind (window t c) = END_OF_SCHEDPOINT_WINDOW \<and>
        w_cpu (window t c) = c \<and> hw_wf t c \<and> hw_addrs t c = {})"

text \<open>The assignments at the end of the loop body.\<close>

definition forget :: "int \<Rightarrow> qstate \<Rightarrow> qstate" where
  "forget d s = qcsched_vmi_lock_info_reset (qcsched_reset_cookie (qcsched_reset_window
     (qcsched_set_cpu_state (upd_record d (\<lambda>r. \<lparr>rec_RIP = 0, rec_count = 0\<rparr>) s) d qcsched_cpu_idle) d) d) d"

lemma forget_simps:
  "cpus (forget d s) = cpus s" "entries (sched (forget d s)) = entries (sched s)" "tot (forget d s) = tot s"
  "ext (forget d s) = ext s" "activated (sched (forget d s)) = activated (sched s)" "used (sched (forget d s)) = used (sched s)"
  "kssb_enabled (sched (forget d s)) = kssb_enabled (sched s)" "hook_addr (vmi_info (forget d s)) = hook_addr (vmi_info s)"
  "vmi_ssb_do_emulate (vmi_info (forget d s)) = vmi_ssb_do_emulate (vmi_info s)" "phys_page (forget d s) = phys_page s"
  "pmem (forget d s) = pmem s" "iothread_locked (forget d s) = iothread_locked s" "infos (forget d s) = infos s"
  "hw_breakpoint (forget d s) = hw_breakpoint s" "hw_wf (forget d s) e = hw_wf s e" "hw_addrs (forget d s) e = hw_addrs s e"
  "cpu_state (sched (forget d s)) e = (if e = d then qcsched_cpu_idle else cpu_state (sched s) e)"
  "lock_count (lock_info (vmi_info (forget d s)) e) = (if e = d then 0 else lock_count (lock_info (vmi_info s) e))"
  "window (forget d s) e = (if e = d then \<lparr>w_total = 0, w_activated = 0, w_from = END_OF_SCHEDPOINT_WINDOW,
     w_until = END_OF_SCHEDPOINT_WINDOW, w_cpu = d, w_left_behind = END_OF_SCHEDPOINT_WINDOW\<rparr> else window s e)"
  by (simp_all add: forget_def qcsched_vmi_lock_info_reset_def qcsched_reset_cookie_def qcsched_reset_window_def
      qcsched_set_cpu_state_def upd_record_def upd_defs hw_wf_def hw_addrs_def)

lemma reset_one_spec:
  assumes "resettable s" and "reset_on D s t" and d: "d \<in> set (cpus s)" "d \<notin> D"
  shows "res_spec b (reset_on (insert d D) s) (reset_one c d t)"
proof (cases "d = 0")
  case True
  then show ?thesis
    using assms(2) by (simp add: reset_one_def reset_on_def)
next
  case False
  have t: "hw_breakpoint t d = hw_breakpoint s d" "cpu_state (sched t) d = cpu_state (sched s) d"
      "infos t d = infos s d" "tot t = tot s" "\<And>i. entry t i = entry s i" "\<not> activated (sched t)"
    using assms(2) d(2) by (auto simp: reset_on_def)
  have hw: "hw_wf t d" "hw_addrs t d = hw_addrs s d"
    using hw_cong [OF t(1)] assms(1) d(1) by (auto simp: resettable_def)
  let ?f = "forget d"
  have free: "res_spec b (\<lambda>u. kvm_frame (t\<lparr>infos := infos u\<rparr>) u \<and> hw_wf u d \<and> hw_addrs u d = {} \<and> \<not> blocked (infos u d) \<and>
      (\<forall>e. e \<noteq> d \<longrightarrow> hw_breakpoint u e = hw_breakpoint t e \<and> infos u e = infos t e) \<and>
      (\<forall>e. waking_up (infos u e) \<longrightarrow> blocked (infos u e)))
    (if \<not> qcsched_check_cpu_state t d qcsched_cpu_deactivated then remove_breakpoints_and_escape_cpu t c d else Ok t)"
  proof (cases "cpu_state (sched s) d = qcsched_cpu_deactivated")
    case True
    then show ?thesis
      using assms(1,2) d(1) False hw t(2,3) by (auto simp: check_cpu_state_simps resettable_def reset_on_def kvm_frame_def)
  next
    case nd: False
    have "hw_addrs s d \<subseteq> (\<lambda>i. e_addr (entry s i)) ` {i. 0 \<le> i \<and> i < tot s \<and> e_cpu (entry s i) = d}"
      using assms(1) d(1) False nd by (auto simp: resettable_def)
    then show ?thesis
      using nd assms(2) hw(2) t
      by (auto simp: check_cpu_state_simps escaped_def reset_on_def intro!: res_spec_mono [OF remove_and_escape_spec [OF hw(1) t(6)]])
  qed
  have "reset_one c d t = res_bind (if \<not> qcsched_check_cpu_state t d qcsched_cpu_deactivated
      then remove_breakpoints_and_escape_cpu t c d else Ok t) (\<lambda>s. Ok (?f s))"
    using False by (simp add: reset_one_def forget_def Let_def)
  also have "res_spec b (reset_on (insert d D) s) \<dots>"
  proof (rule res_spec_bind [OF free])
    fix u
    assume u: "kvm_frame (t\<lparr>infos := infos u\<rparr>) u \<and> hw_wf u d \<and> hw_addrs u d = {} \<and> \<not> blocked (infos u d) \<and>
      (\<forall>e. e \<noteq> d \<longrightarrow> hw_breakpoint u e = hw_breakpoint t e \<and> infos u e = infos t e) \<and>
      (\<forall>e. waking_up (infos u e) \<longrightarrow> blocked (infos u e))"
    have "hw_wf u e = hw_wf t e" "hw_addrs u e = hw_addrs t e" if "e \<noteq> d" for e
      using hw_cong [of u e t] u that by auto
    then have "reset_on (insert d D) s (?f u)"
      using u assms(2) False by (simp add: reset_on_def kvm_frame_def forget_simps insert_Diff_if)
    then show "res_spec b (reset_on (insert d D) s) (Ok (?f u))" by simp
  qed
  finally show ?thesis .
qed

lemma reset_loop_spec:
  assumes "resettable s" and "reset_on {} s t"
  shows "res_spec b (reset_on (set (cpus s)) s) (foreach (cpus s) (reset_one c) t)"
proof -
  have "res_spec b (\<lambda>u. \<exists>xs. cpus s = xs @ [] \<and> reset_on (set xs) s u) (foreach (cpus s) (reset_one c) t)"
  proof (rule foreach_spec [where I = "\<lambda>ys u. \<exists>xs. cpus s = xs @ ys \<and> reset_on (set xs) s u"])
    fix d ys u
    assume "\<exists>xs. cpus s = xs @ d # ys \<and> reset_on (set xs) s u"
    then obtain xs where xs: "cpus s = xs @ d # ys" "reset_on (set xs) s u" by auto
    have "d \<in> set (cpus s)" "d \<notin> set xs"
      using assms(1) xs(1) by (auto simp: resettable_def)
    from reset_one_spec [OF assms(1) xs(2) this, of b c]
    show "res_spec b (\<lambda>u. \<exists>xs. cpus s = xs @ ys \<and> reset_on (set xs) s u) (reset_one c d u)"
      by (rule res_spec_mono) (use xs(1) in \<open>auto intro!: exI [of _ "xs @ [d]"]\<close>)
  qed (use assms(2) in auto)
  then show ?thesis by simp
qed

text \<open>A machine with an empty schedule: the invariant holds and nothing is armed.\<close>

definition fresh :: "qstate \<Rightarrow> bool" where
  "fresh s \<longleftrightarrow> sched_inv s \<and> tot s = 0 \<and> used (sched s) \<and> \<not> activated (sched s) \<and>
     (\<forall>i. 0 \<le> i \<and> i < MAX_SCHEDPOINTS \<longrightarrow> entry s i = zero_entry) \<and>
     (\<forall>c\<in>set (cpus s) - {0}. cpu_state (sched s) c = qcsched_cpu_idle \<and> hw_addrs s c = {} \<and> \<not> blocked (infos s c))"

lemma reset_on_fresh:
  fixes s t
  defines "u \<equiv> upd_sched (\<lambda>q. q\<lparr>total := 0, current := 0, nr_cpus := 0, entries := zero_entries (entries q)\<rparr>) t\<lparr>warn_once := False\<rparr>"
  assumes "resettable s" and r: "reset_on (set (cpus s)) s t"
  shows "fresh u"
proof -
  have e: "entry u i = (if 0 \<le> i \<and> i < MAX_SCHEDPOINTS then zero_entry else entry t i)" for i
    by (simp add: u_def upd_sched_def zero_entries_def)
  have u: "window u = window t" "hw_breakpoint u = hw_breakpoint t" "infos u = infos t" "cpus u = cpus s"
    "cpu_state (sched u) = cpu_state (sched t)" "vmi_info u = vmi_info t" "tot u = 0" "current (sched u) = 0"
    "used (sched u)" "\<not> activated (sched u)"
    using r by (auto simp: u_def upd_sched_def reset_on_def)
  have hw: "hw_wf u c = hw_wf t c" "hw_addrs u c = hw_addrs t c" for c
    using hw_cong [of u c t] u(2) by auto
  have none: "installed_on u c = {}" and own: "own u c i \<longleftrightarrow> c = 0 \<and> 0 \<le> i \<and> i < MAX_SCHEDPOINTS" for c i
    by (auto simp: installed_on_def own_def e)
  have zero: "window t 0 = window s 0" "hw_wf t 0" "hw_addrs t 0 = {}"
    using r assms(2) hw_cong [of t 0 s] by (auto simp: reset_on_def resettable_def)
  have "glob u"
    using assms(2) r by (simp add: glob_def u e resettable_def reset_on_def MAX_SCHEDPOINTS_def)
  moreover have "distinct_addrs u"
    by (simp add: distinct_addrs_def own)
  moreover have "win u c" if c: "c \<in> set (cpus s)" for c
  proof (cases "c = 0")
    case True
    then show ?thesis
      using assms(2) zero by (simp add: win_def core_def marks_def none u hw resettable_def SCHEDPOINT_WINDOW_SIZE_def)
  next
    case False
    then have c: "c \<in> set (cpus s) - {0}" using c by simp
    then show ?thesis
      using r by (simp add: win_def core_def marks_def cursor_def left_ok_def quiet_def none own u hw reset_on_def
          SCHEDPOINT_WINDOW_SIZE_def)
  qed
  ultimately show ?thesis
    using r by (simp add: fresh_def sched_inv_def u e hw reset_on_def)
qed

end
