(* ===== verification/Handover_Inv.thy ===== *)
theory Handover_Inv
  imports Reset_Inv
begin

text \<open>
  The hypercalls that write guest memory, \<^verbatim>\<open>HCALL_RESET\<close> as a whole, and those that hand over a
  schedule: \<^verbatim>\<open>HCALL_PREPARE\<close> and \<^verbatim>\<open>HCALL_INSTALL_BP\<close>.
\<close>

section \<open>Guest memory\<close>

text \<open>From \<open>s\<close> to \<open>t\<close> only guest memory, the emulation flag and the run state changed.\<close>

definition set_mem :: "(u64 \<Rightarrow> u8) \<Rightarrow> bool \<Rightarrow> bool \<Rightarrow> qstate \<Rightarrow> qstate" where
  "set_mem m v k s = s\<lparr>pmem := m, vm_running := v, sched := (sched s)\<lparr>kssb_enabled := k\<rparr>\<rparr>"

definition mem_only :: "qstate \<Rightarrow> qstate \<Rightarrow> bool" where
  "mem_only s t \<longleftrightarrow> t = set_mem (pmem t) (vm_running t) (kssb_enabled (sched t)) s"

lemma mem_onlyI: "t = set_mem m v k s \<Longrightarrow> mem_only s t"
  by (simp add: mem_only_def set_mem_def)

lemma mem_only_refl [simp]: "mem_only s s"
  by (simp add: mem_only_def set_mem_def)

lemma mem_only_pmem: "t = s\<lparr>pmem := m\<rparr> \<Longrightarrow> mem_only s t"
  by (rule mem_onlyI [where m = m and v = "vm_running s" and k = "kssb_enabled (sched s)"]) (simp add: set_mem_def)

lemma mem_only_set: "mem_only s t \<Longrightarrow> mem_only s (upd_sched (\<lambda>q. q\<lparr>kssb_enabled := k\<rparr>) t)"
  "mem_only s t \<Longrightarrow> mem_only s (t\<lparr>vm_running := v\<rparr>)"
  by (auto simp: mem_only_def set_mem_def upd_sched_def elim!: ssubst)

lemma set_mem_twice: "set_mem m v k (set_mem m' v' k' s) = set_mem m v k s"
  by (simp add: set_mem_def)

lemma mem_only_trans: "mem_only s t \<Longrightarrow> mem_only t u \<Longrightarrow> mem_only s u"
  unfolding mem_only_def by (metis set_mem_twice)

lemma mem_onlyD:
  assumes "mem_only s t"
  shows "entries (sched t) = entries (sched s)" "schedpoint_window (sched t) = schedpoint_window (sched s)"
    "cpu_state (sched t) = cpu_state (sched s)" "tot t = tot s" "current (sched t) = current (sched s)"
    "activated (sched t) = activated (sched s)" "used (sched t) = used (sched s)" "vmi_info t = vmi_info s"
    "infos t = infos s" "cpus t = cpus s" "hw_breakpoint t = hw_breakpoint s" "iothread_locked t = iothread_locked s"
    "cpu_of t = cpu_of s" "ext t = ext s" "phys_page t = phys_page s" "current_cpu t = current_cpu s" "vcpu_regs t = vcpu_regs s"
  by (subst assms [unfolded mem_only_def], simp add: set_mem_def)+

lemma mem_only_inv:
  assumes "sched_inv s" and "mem_only s t"
  shows "sched_inv t"
  by (rule sched_inv_cong [OF assms(1)]) (simp_all add: mem_onlyD [OF assms(2)])

lemma mem_only_fresh:
  assumes "fresh s" and "mem_only s t"
  shows "fresh t"
proof -
  have "hw_addrs t c = hw_addrs s c" for c
    by (rule hw_cong) (simp_all add: mem_onlyD [OF assms(2)])
  then show ?thesis
    using assms(1) mem_only_inv [OF _ assms(2)] by (auto simp: fresh_def mem_onlyD [OF assms(2)])
qed

text \<open>The byte of the emulation switch, where the guest announced one, can be written.\<close>

definition kssb_ok :: "qstate \<Rightarrow> int \<Rightarrow> bool" where
  "kssb_ok s c \<longleftrightarrow> (let a = vmi_ssb_do_emulate (vmi_info s); p = phys_page s c (a AND TARGET_PAGE_MASK)
     in a \<noteq> 0 \<longrightarrow> p \<noteq> - 1 \<and> ext_as_ok (ext s) (p + (a AND NOT TARGET_PAGE_MASK)) 1)"

lemma rw_ssb_spec:
  assumes "b \<Longrightarrow> kssb_ok s c"
  shows "res_spec b (\<lambda>(ok, t). mem_only s t) (qcsched_rw_ssb_do_emulate s c v)"
proof -
  let ?a = "vmi_ssb_do_emulate (vmi_info s)"
  obtain r out t where rw: "cpu_memory_rw_debug s c ?a [v] True = (r, out, t)"
    by (cases "cpu_memory_rw_debug s c ?a [v] True") auto
  have "mem_only s t"
    using cpu_memory_rw_debug_frame [OF rw] by (blast intro: mem_only_pmem)
  moreover have "r = 0" if "b" "?a \<noteq> 0"
    using rw that assms page_rest_pos [of ?a] cpu_memory_rw_debug_one_page [of "[v]" ?a s c _ True]
    by (auto simp: kssb_ok_def Let_def)
  ultimately show ?thesis
    using rw by (auto simp: qcsched_rw_ssb_do_emulate_def Let_def)
qed

lemma kssb_spec:
  assumes "b \<Longrightarrow> kssb_ok s c"
  shows "res_spec b (\<lambda>(r, t). mem_only s t) (qcsched_enable_kssb s c)"
    and "res_spec b (\<lambda>(r, t). mem_only s t) (qcsched_disable_kssb s c)"
proof -
  have st: "mem_only s (vm_stop s)" "b \<Longrightarrow> kssb_ok (vm_stop s) c"
    using assms by (auto simp: vm_stop_def kssb_ok_def intro: mem_only_set)
  show "res_spec b (\<lambda>(r, t). mem_only s t) (qcsched_enable_kssb s c)"
    unfolding qcsched_enable_kssb_def
    by (intro res_spec_if res_spec_Ok res_spec_bind [OF rw_ssb_spec [OF assms]]) (auto intro: mem_only_set)
  show "res_spec b (\<lambda>(r, t). mem_only s t) (qcsched_disable_kssb s c)"
    unfolding qcsched_disable_kssb_def
    by (intro res_spec_if res_spec_Ok res_spec_bind [OF rw_ssb_spec [OF st(2)]])
      (auto simp: vm_restart_def intro!: mem_only_set intro: mem_only_trans [OF st(1)])
qed

lemma reset_spec:
  assumes "resettable s" and "b \<Longrightarrow> kssb_ok s c"
  shows "res_spec b fresh (qcsched_reset s c)"
proof -
  let ?s = "upd_sched (\<lambda>q. q\<lparr>used := True, activated := False\<rparr>) s"
  have "reset_on {} s ?s"
    using assms(1) by (simp add: reset_on_def resettable_def upd_sched_def)
  from reset_loop_spec [OF assms(1) this]
  have "res_spec b (reset_on (set (cpus s)) s) (foreach (cpus ?s) (reset_one c) ?s)"
    by (simp add: upd_sched_def)
  then show ?thesis
    unfolding qcsched_reset_def Let_def
  proof (rule res_spec_bind)
    fix t
    assume t: "reset_on (set (cpus s)) s t"
    let ?u = "upd_sched (\<lambda>q. q\<lparr>total := 0, current := 0, nr_cpus := 0, entries := zero_entries (entries q)\<rparr>) t\<lparr>warn_once := False\<rparr>"
    have "b \<Longrightarrow> kssb_ok ?u c"
      using assms(2) t by (simp add: kssb_ok_def upd_sched_def reset_on_def Let_def)
    then show "res_spec b fresh (res_bind (qcsched_disable_kssb ?u c) (\<lambda>(_, s). Ok s))"
      by (rule res_spec_bind [OF kssb_spec(2)])
        (use mem_only_fresh [OF reset_on_fresh [OF assms(1) t]] in auto)
  qed
qed

section \<open>Handing over a schedule\<close>

lemma sint_small:
  fixes w :: "'a :: len word"
  assumes "uint w < 2 ^ (LENGTH('a) - 1)"
  shows "sint w = uint w"
proof -
  have "- (2 ^ (LENGTH('a) - 1)) \<le> uint w"
    by (rule order_trans [of _ 0]) simp_all
  then show ?thesis
    using assms by (simp add: sint_uint signed_take_bit_int_eq_self)
qed

lemma prepare_inv:
  assumes inv: "sched_inv s"
  shows "sched_inv (snd (qcsched_prepare s n m))"
proof (cases "tot s = 0 \<and> snd (qcsched_prepare s n m) \<noteq> s")
  case True
  define k where "k = (if n > word_of_int MAX_SCHEDPOINTS then word_of_int MAX_SCHEDPOINTS else n)"
  define t where "t = snd (qcsched_prepare s n m)"
  have t: "t = upd_sched (\<lambda>q. q\<lparr>total := int_of_u32 k, orig_nr_bps := int_of_u32 n, nr_cpus := int_of_u32 m, used := False\<rparr>) s"
    using True by (auto simp: t_def k_def qcsched_prepare_def Let_def split: if_splits)
  have "unat k \<le> 256"
    by (auto simp: k_def MAX_SCHEDPOINTS_def word_less_nat_alt not_less)
  moreover have "int (unat k) = uint k" by simp
  ultimately have "uint k \<le> 256" by linarith
  then have "sint k = uint k"
    by (intro sint_small) simp
  then have k: "0 \<le> int_of_u32 k" "int_of_u32 k \<le> MAX_SCHEDPOINTS"
    using \<open>uint k \<le> 256\<close> by (simp_all add: int_of_u32_def MAX_SCHEDPOINTS_def)
  have f: "entries (sched t) = entries (sched s)" "schedpoint_window (sched t) = schedpoint_window (sched s)"
    "cpu_state (sched t) = cpu_state (sched s)" "vmi_info t = vmi_info s" "hw_breakpoint t = hw_breakpoint s"
    "current (sched t) = current (sched s)" "cpus t = cpus s" "infos t = infos s" "activated (sched t) = activated (sched s)"
    "tot t = int_of_u32 k" "\<not> used (sched t)"
    by (simp_all add: t upd_sched_def)
  note w = table_parts [OF f(1-3) _ f(5), unfolded f(4), OF refl]
  have "glob t"
    using inv True k by (auto simp: sched_inv_def glob_def f)
  moreover have "win t c" if "c \<in> set (cpus s)" for c
    using inv that True by (auto simp: sched_inv_def win_def w quiet_def f)
  ultimately show ?thesis
    using inv by (simp add: sched_inv_def t_def [symmetric] w f)
next
  case False
  then show ?thesis
    using inv by (auto simp: qcsched_prepare_def Let_def)
qed

text \<open>
  What a caller owes to \<^verbatim>\<open>HCALL_INSTALL_BP\<close>: an address that is not zero and, on a worker,
  neither the hook nor an address the CPU has already installed.
\<close>

definition installable :: "qstate \<Rightarrow> int \<Rightarrow> u64 \<Rightarrow> bool" where
  "installable s c addr \<longleftrightarrow> addr \<noteq> 0 \<and> (c \<noteq> 0 \<longrightarrow> addr \<noteq> hook_addr (vmi_info s) \<and>
     (addr = QCSCHED_DUMMY_BREAKPOINT \<or> (\<forall>i. own s c i \<longrightarrow> e_addr (entry s i) \<noteq> addr)))"

definition place :: "qstate \<Rightarrow> int \<Rightarrow> u64 \<Rightarrow> int \<Rightarrow> qcschedpoint_footprint \<Rightarrow> vmi_task \<Rightarrow> qstate" where
  "place s c addr order fp k =
     upd_entry order (\<lambda>e. e\<lparr>schedpoint := \<lparr>sp_addr = addr, sp_order = order, sp_footprint = fp\<rparr>, e_cpu := c, e_task := k\<rparr>) s"

lemma place_simps:
  "entry (place s c addr order fp k) i = (if i = order then (entry s order)\<lparr>schedpoint :=
     \<lparr>sp_addr = addr, sp_order = order, sp_footprint = fp\<rparr>, e_cpu := c, e_task := k\<rparr> else entry s i)"
  "window (place s c addr order fp k) = window s" "hw_breakpoint (place s c addr order fp k) = hw_breakpoint s"
  "cpu_state (sched (place s c addr order fp k)) = cpu_state (sched s)" "tot (place s c addr order fp k) = tot s"
  "current (sched (place s c addr order fp k)) = current (sched s)" "vmi_info (place s c addr order fp k) = vmi_info s"
  "infos (place s c addr order fp k) = infos s" "cpus (place s c addr order fp k) = cpus s"
  "activated (sched (place s c addr order fp k)) = activated (sched s)" "used (sched (place s c addr order fp k)) = used (sched s)"
  "hw_wf (place s c addr order fp k) d = hw_wf s d" "hw_addrs (place s c addr order fp k) d = hw_addrs s d"
  by (simp_all add: place_def upd_entry_def hw_wf_def hw_addrs_def)

lemma place_own:
  assumes inv: "sched_inv s" and o: "0 \<le> order" "order < tot s" "e_addr (entry s order) = 0"
  shows "own (place s c addr order fp k) d i \<longleftrightarrow> (if i = order then d = c else own s d i)"
    and "installed_on (place s c addr order fp k) d = installed_on s d" "own s d order \<longleftrightarrow> d = 0" "\<not> installed (entry s order)"
proof -
  have gl: "glob s" and co: "core s 0"
    using inv by (auto simp: sched_inv_def glob_def win_def)
  have b: "order < MAX_SCHEDPOINTS" "e_cpu (entry s order) = 0"
    using gl o by (auto simp: glob_def)
  show own: "own s d order \<longleftrightarrow> d = 0" for d
    using b o by (auto simp: own_def)
  show ni: "\<not> installed (entry s order)"
    using co own by (auto simp: core_def installed_on_def)
  show "own (place s c addr order fp k) d i \<longleftrightarrow> (if i = order then d = c else own s d i)" for i
    using b o by (auto simp: own_def place_simps)
  then show "installed_on (place s c addr order fp k) d = installed_on s d"
    using ni by (auto simp: installed_on_def place_simps own split: if_splits)
qed

lemma place_inv:
  assumes inv: "sched_inv s" and o: "0 \<le> order" "order < tot s" "e_addr (entry s order) = 0"
    and c: "c \<in> set (cpus s)" "cpu_state (sched s) c = qcsched_cpu_idle" and fp: "fp \<in> {footprint_preserved, footprint_missed}"
    and ok: "installable s c addr"
  shows "sched_inv (place s c addr order fp k)"
proof -
  let ?t = "place s c addr order fp k"
  note ow = place_own(1,2) [OF inv o, where c = c and addr = addr and fp = fp and k = k] place_own(3,4) [OF inv o]
  have gl: "glob s" and da: "distinct_addrs s" using inv by (simp_all add: sched_inv_def)
  have "glob ?t"
    using gl o c ok by (auto simp: glob_def place_simps installable_def)
  moreover have "distinct_addrs ?t"
    using da ok ow(3) by (auto simp: distinct_addrs_def place_simps installable_def ow(1))
  moreover have "win ?t d" if d: "d \<in> set (cpus s)" for d
  proof -
    have w: "win s d" using inv d by (simp add: sched_inv_def)
    have "order \<notin> installed_on s d" using ow(4) by (simp add: installed_on_def)
    then have e: "entry ?t i = entry s i" if "i \<in> installed_on s d" for i
      using that by (auto simp: place_simps)
    then have im: "(\<lambda>i. e_addr (entry ?t i)) ` installed_on s d = (\<lambda>i. e_addr (entry s i)) ` installed_on s d"
      by (intro image_cong) auto
    have "core ?t d" "marks ?t d"
      using w e unfolding win_def core_def marks_def ow(2) im place_simps(2-) by simp_all
    moreover have "cursor ?t d" "quiet ?t d" if "d \<noteq> 0"
      using w that fp c(2) ow(3) [of d]
      by (auto simp: win_def cursor_def left_ok_def quiet_def closed_window_def ow(1,2) place_simps)
    ultimately show ?thesis by (simp add: win_def)
  qed
  ultimately show ?thesis
    by (simp add: sched_inv_def place_simps)
qed

lemma begin_window_inv:
  assumes inv: "sched_inv t" and c: "c \<in> set (cpus t)" "cpu_state (sched t) c = qcsched_cpu_idle"
    and o: "c \<noteq> 0 \<longrightarrow> own t c order \<and> e_footprint (entry t order) = footprint_preserved"
  shows "sched_inv (upd_window c (\<lambda>w. w\<lparr>w_from := order, w_until := order\<rparr>) t)" (is "sched_inv ?u")
proof (rule sched_inv_only [OF inv upd_window_only])
  have w: "win t c" using inv c(1) by (simp add: sched_inv_def)
  have ion: "installed_on ?u c = installed_on t c" "hw_wf ?u c = hw_wf t c" "hw_addrs ?u c = hw_addrs t c"
      "own ?u c i = own t c i" for i
    by (simp_all add: installed_on_def own_def upd_window_def hw_wf_def hw_addrs_def)
  have "core ?u c" "marks ?u c"
    using w unfolding win_def core_def marks_def ion by (simp_all add: upd_window_def)
  moreover have "cursor ?u c" "quiet ?u c" if "c \<noteq> 0"
    using w o that c(2) unfolding win_def cursor_def left_ok_def quiet_def closed_window_def ion
    by (auto simp: upd_window_def own_def END_OF_SCHEDPOINT_WINDOW_def)
  ultimately show "win ?u c" by (simp add: win_def)
qed

lemma res_spec_True: "res_spec b (\<lambda>_. True) r \<longleftrightarrow> (b \<longrightarrow> is_ok r)"
  by (cases r) auto

lemma install_spec:
  assumes inv: "sched_inv s" and c: "c \<in> set (cpus s)"
    and ok: "installable s c addr"
    and "b \<Longrightarrow> tot s \<le> orig_nr_bps (sched s)" and "b \<Longrightarrow> 0 \<le> order" and "b \<Longrightarrow> is_ok (qcsched_vmi_task s c)"
  shows "res_spec b (\<lambda>(r, t). sched_inv t) (qcsched_install_breakpoint s c addr order fp_arg)"
proof -
  define fp where "fp = (if fp_arg \<noteq> 1 then footprint_preserved else footprint_missed)"
  let ?s1 = "upd_entry order (\<lambda>e. e\<lparr>schedpoint := \<lparr>sp_addr = addr, sp_order = order, sp_footprint = fp\<rparr>, e_cpu := c\<rparr>) s"
  have tk: "qcsched_vmi_task ?s1 c = qcsched_vmi_task s c"
    by (rule vmi_read_cong) (simp_all add: upd_entry_def)
  have pl: "upd_entry order (\<lambda>e. e\<lparr>e_task := k\<rparr>) (upd_entry order (\<lambda>e. e\<lparr>schedpoint :=
      \<lparr>sp_addr = addr, sp_order = order, sp_footprint = f\<rparr>, e_cpu := c\<rparr>) s) = place s c addr order f k" for k f
    by (simp add: place_def upd_entry_def)
  have place: "sched_inv (place s c addr order fp k)"
    "P \<and> fp = footprint_preserved \<Longrightarrow> sched_inv (upd_window c (\<lambda>w. w\<lparr>w_from := order, w_until := order\<rparr>) (place s c addr order fp k))"
    if o: "0 \<le> order" "order < tot s" "e_addr (entry s order) = 0" and idle: "cpu_state (sched s) c = qcsched_cpu_idle" for k P
  proof -
    show p: "sched_inv (place s c addr order fp k)"
      by (rule place_inv [OF inv o c idle _ ok]) (simp add: fp_def)
    show "sched_inv (upd_window c (\<lambda>w. w\<lparr>w_from := order, w_until := order\<rparr>) (place s c addr order fp k))"
      if "P \<and> fp = footprint_preserved"
      by (rule begin_window_inv [OF p]) (use c idle that in \<open>auto simp: place_simps place_own(1) [OF inv o]\<close>)
  qed
  show ?thesis
    unfolding qcsched_install_breakpoint_def Let_def fp_def [symmetric] tk pl
    by (intro res_spec_bind_c_assert res_spec_if) (use assms(4-6) inv place in
      \<open>auto simp: pl tk res_spec_True check_cpu_state_simps qcsched_entry_used_def not_le intro!: res_spec_bind [where P = "\<lambda>_. True"]
        split: if_splits\<close>)
qed

end
