(* ===== verification/Activate_Inv.thy ===== *)
theory Activate_Inv
  imports Handover_Inv
begin

text \<open>
  \<^verbatim>\<open>HCALL_ACTIVATE_BP\<close>: a CPU joins the schedule, the last one starts it, and each arms the hook.
\<close>

section \<open>Starting a schedule\<close>

text \<open>The parts of the invariant that look at the entries of a CPU, its counters and its table only.\<close>

lemma core_cong:
  assumes "entries (sched t) = entries (sched s)" "hook_addr (vmi_info t) = hook_addr (vmi_info s)"
    "w_cpu (window t d) = w_cpu (window s d)" "w_activated (window t d) = w_activated (window s d)"
    "d = 0 \<Longrightarrow> w_total (window t d) = w_total (window s d)"
    "hw_wf t d" "hw_addrs t d \<subseteq> hw_addrs s d"
  shows "core s d \<Longrightarrow> core t d" "marks t d = marks s d" "installed_on t d = installed_on s d" "own t d i = own s d i"
proof -
  show own: "own t d i = own s d i" for i by (simp add: own_def assms(1))
  then show ion: "installed_on t d = installed_on s d" by (simp add: installed_on_def assms(1))
  then show "marks t d = marks s d" by (simp add: marks_def assms(1))
  show "core s d \<Longrightarrow> core t d"
    unfolding core_def ion assms(1-4) using assms(5-7) by auto
qed

lemma sched_inv_windows:
  assumes inv: "sched_inv s" and "glob t"
    and e: "entries (sched t) = entries (sched s)" "vmi_info t = vmi_info s" "cpus t = cpus s"
    and w: "\<And>d. w_cpu (window t d) = w_cpu (window s d)" "\<And>d. w_activated (window t d) = w_activated (window s d)"
      "w_total (window t 0) = w_total (window s 0)"
    and hw: "\<And>d. d \<in> set (cpus s) \<Longrightarrow> hw_wf t d" "\<And>d. d \<in> set (cpus s) \<Longrightarrow> hw_addrs t d \<subseteq> hw_addrs s d"
    and q: "\<And>d. d \<in> set (cpus s) \<Longrightarrow> d \<noteq> 0 \<Longrightarrow> cursor s d \<Longrightarrow> quiet s d \<Longrightarrow> cursor t d \<and> quiet t d"
  shows "sched_inv t"
proof -
  have "win t d" if d: "d \<in> set (cpus s)" for d
  proof -
    have "d = 0 \<Longrightarrow> w_total (window t d) = w_total (window s d)" using w(3) by simp
    note c = core_cong [OF e(1) _ w(1,2) this hw(1) [OF d] hw(2) [OF d], unfolded e(2), OF refl]
    show ?thesis
      using inv d c(1,2) q [OF d] by (auto simp: win_def sched_inv_def)
  qed
  moreover have "distinct_addrs t"
    using inv by (simp add: sched_inv_def distinct_addrs_def own_def e)
  ultimately show ?thesis
    using assms(2) by (simp add: sched_inv_def e)
qed

lemma set_state_simps:
  fixes s c st
  defines "t \<equiv> qcsched_set_cpu_state s c st"
  shows "own t d i = own s d i" "installed_on t d = installed_on s d" "hw_wf t d = hw_wf s d" "hw_addrs t d = hw_addrs s d"
    "closed_window t d = closed_window s d" "left_ok t d n = left_ok s d n" "entries (sched t) = entries (sched s)"
    "window t = window s" "cpus t = cpus s" "infos t = infos s" "tot t = tot s" "vmi_info t = vmi_info s"
    "activated (sched t) = activated (sched s)" "used (sched t) = used (sched s)" "current (sched t) = current (sched s)"
    "cpu_state (sched t) d = (if d = c then st else cpu_state (sched s) d)" "ext t = ext s" "current_cpu t = current_cpu s"
    "iothread_locked t = iothread_locked s"
  by (simp_all add: t_def own_def installed_on_def hw_wf_def hw_addrs_def closed_window_def left_ok_def
      qcsched_set_cpu_state_def upd_sched_def)

lemma set_state_parts:
  fixes s c st
  defines "t \<equiv> qcsched_set_cpu_state s c st"
  shows "glob t = glob s" "distinct_addrs t = distinct_addrs s" "core t d = core s d" "marks t d = marks s d"
    "d \<noteq> c \<Longrightarrow> cursor t d = cursor s d" "d \<noteq> c \<Longrightarrow> quiet t d = quiet s d"
  unfolding t_def
  by (simp_all add: glob_def distinct_addrs_def core_def marks_def cursor_def quiet_def set_state_simps cong: if_cong)

lemma set_state_inv:
  assumes "sched_inv s" and "c \<noteq> 0 \<Longrightarrow> cursor s c \<Longrightarrow> quiet s c \<Longrightarrow>
    cursor (qcsched_set_cpu_state s c st) c \<and> quiet (qcsched_set_cpu_state s c st) c"
  shows "sched_inv (qcsched_set_cpu_state s c st)"
proof -
  have "win (qcsched_set_cpu_state s c st) d" if "win s d" for d
    using that assms(2) by (cases "d = c") (auto simp: win_def set_state_parts)
  then show ?thesis
    using assms(1) by (simp add: sched_inv_def set_state_parts set_state_simps)
qed

lemma set_ready_inv:
  assumes "sched_inv s" and "cpu_state (sched s) c \<in> {qcsched_cpu_idle, qcsched_cpu_ready}"
  shows "sched_inv (qcsched_set_cpu_state s c qcsched_cpu_ready)"
  by (rule set_state_inv [OF assms(1)]) (use assms(2) in \<open>auto simp: cursor_def quiet_def set_state_simps\<close>)

lemma sched_init_once_eq:
  assumes "0 \<le> tot s" "0 \<le> current (sched s)" "current (sched s) \<le> tot s"
  obtains n where "sched_init_once s = upd_sched (\<lambda>q. q\<lparr>activated := True, current := n\<rparr>) s" "0 \<le> n" "n \<le> tot s"
proof (cases "activated (sched s)")
  case True
  then have "sched_init_once s = upd_sched (\<lambda>q. q\<lparr>activated := True, current := current (sched s)\<rparr>) s"
    by (simp add: sched_init_once_def upd_sched_def)
  then show ?thesis using that assms(2,3) by blast
next
  case False
  let ?P = "\<lambda>i. e_footprint (entry s i) = footprint_preserved"
  show ?thesis
  proof (cases "List.find ?P [0..tot s - 1]")
    case None
    then have "sched_init_once s = upd_sched (\<lambda>q. q\<lparr>activated := True, current := tot s\<rparr>) s"
      using False by (simp add: sched_init_once_def upd_sched_def)
    then show ?thesis using that assms(1) by blast
  next
    case (Some i)
    then have "sched_init_once s = upd_sched (\<lambda>q. q\<lparr>activated := True, current := i\<rparr>) s"
      using False by (simp add: sched_init_once_def upd_sched_def)
    moreover have "0 \<le> i" "i \<le> tot s" using Some by (auto simp: find_upto_Some)
    ultimately show ?thesis using that by blast
  qed
qed

text \<open>The CPU is marked, the schedule is on, the window counts its entries; the hook is not armed yet.\<close>

definition started :: "qstate \<Rightarrow> int \<Rightarrow> qstate" where
  "started s c = (let s = sched_init_once (qcsched_set_cpu_state s c qcsched_cpu_activated)
     in upd_window c (\<lambda>w. w\<lparr>w_total := w_total w + int (length (filter (\<lambda>i. e_cpu (entry s i) = c) [0..tot s - 1]))\<rparr>) s)"

lemma started_inv:
  assumes inv: "sched_inv s" and c: "c \<in> set (cpus s)" "c \<noteq> 0" "cpu_state (sched s) c = qcsched_cpu_ready"
    and t: "tot s \<noteq> 0" "\<not> used (sched s)"
  shows "sched_inv (started s c)" "worker (started s c) c" "hw_addrs (started s c) c = {}"
proof -
  let ?n = "int (length (filter (\<lambda>i. e_cpu (entry s i) = c) [0..tot s - 1]))"
  let ?u = "started s c"
  have gl: "glob s" using inv by (simp add: sched_inv_def)
  have w: "win s d" if "d \<in> set (cpus s)" for d using inv that by (simp add: sched_inv_def)
  define s1 where "s1 = qcsched_set_cpu_state s c qcsched_cpu_activated"
  have "0 \<le> tot s1" "0 \<le> current (sched s1)" "current (sched s1) \<le> tot s1"
    using gl by (simp_all add: s1_def qcsched_set_cpu_state_def upd_sched_def glob_def)
  then obtain m where "sched_init_once s1 = upd_sched (\<lambda>q. q\<lparr>activated := True, current := m\<rparr>) s1" "0 \<le> m" "m \<le> tot s1"
    by (rule sched_init_once_eq)
  then have u: "?u = upd_window c (\<lambda>w. w\<lparr>w_total := w_total w + ?n\<rparr>)
      (upd_sched (\<lambda>q. q\<lparr>cpu_state := (cpu_state q)(c := qcsched_cpu_activated), activated := True, current := m\<rparr>) s)"
    and m: "0 \<le> m" "m \<le> tot s"
    by (simp_all add: started_def s1_def qcsched_set_cpu_state_def upd_sched_def Let_def)
  have f: "own ?u d i = own s d i" "installed_on ?u d = installed_on s d" "hw_wf ?u d = hw_wf s d" "hw_addrs ?u d = hw_addrs s d"
    "left_ok ?u d k = left_ok s d k" "d \<noteq> c \<Longrightarrow> closed_window ?u d = closed_window s d" for d i k
    by (simp_all add: u own_def installed_on_def hw_wf_def hw_addrs_def closed_window_def left_ok_def upd_sched_def upd_window_def)
  have g: "cpus ?u = cpus s" "tot ?u = tot s" "activated (sched ?u)" "\<not> used (sched ?u)" "infos ?u = infos s"
    "cpu_state (sched ?u) d = (if d = c then qcsched_cpu_activated else cpu_state (sched s) d)" "entries (sched ?u) = entries (sched s)"
    "w_from (window ?u d) = w_from (window s d)" "w_until (window ?u d) = w_until (window s d)"
    "w_left_behind (window ?u d) = w_left_behind (window s d)" 
    "w_total (window ?u d) = (if d = c then w_total (window s d) + ?n else w_total (window s d))" for d
    using t(2) by (simp_all add: u upd_sched_def upd_window_def)
  have q: "quiet s c" "cursor s c" using w [OF c(1)] c(2) by (simp_all add: win_def)
  show "hw_addrs ?u c = {}" using q(1) c(3) by (simp add: f quiet_def)
  show "worker ?u c" using c by (simp add: worker_def g)
  have pos: "w_total (window s c) + ?n \<noteq> 0" if "w_from (window s c) \<noteq> END_OF_SCHEDPOINT_WINDOW"
  proof -
    have "own s c (w_from (window s c))" using q(2) that by (simp add: cursor_def)
    then have "filter (\<lambda>i. e_cpu (entry s i) = c) [0..tot s - 1] \<noteq> []"
      using own_iff [OF gl c(2)] by (auto simp: filter_empty_conv)
    then show ?thesis using q(1) c(3) by (simp add: quiet_def)
  qed
  show "sched_inv ?u"
  proof (rule sched_inv_windows [OF inv])
    show "glob ?u" using gl m by (simp add: glob_def u upd_sched_def upd_window_def)
    show "hw_wf ?u d" "hw_addrs ?u d \<subseteq> hw_addrs s d" if "d \<in> set (cpus s)" for d
      using w [OF that] by (simp_all add: f win_def core_def)
    show "cursor ?u d \<and> quiet ?u d" if "cursor s d" "quiet s d" for d
      using that t c(3) pos unfolding cursor_def quiet_def f by (cases "d = c") (auto simp: f g)
  qed (use c(2) in \<open>simp_all add: u upd_sched_def upd_window_def\<close>)
qed

lemma activate_spec:
  assumes inv: "sched_inv s" and c: "c \<in> set (cpus s)" and "b \<Longrightarrow> io_ok s" and "b \<Longrightarrow> iothread_locked s"
  shows "res_spec b (\<lambda>(r, t). sched_inv t) (qcsched_activate_breakpoint s c)"
proof (cases "used (sched s) \<or> qcsched_check_cpu_state s c qcsched_cpu_activated")
  case True
  then show ?thesis using inv by (auto simp: qcsched_activate_breakpoint_def)
next
  case False
  let ?r = "qcsched_set_cpu_state s c qcsched_cpu_ready"
  have "cpu_state (sched s) c \<in> {qcsched_cpu_idle, qcsched_cpu_ready}"
    using False by (cases "cpu_state (sched s) c") (auto simp: check_cpu_state_simps)
  then have r: "sched_inv ?r" by (rule set_ready_inv [OF inv])
  have f: "cpu_state (sched ?r) c = qcsched_cpu_ready" "\<not> used (sched ?r)" "cpus ?r = cpus s" "iothread_locked ?r = iothread_locked s"
    "ext ?r = ext s" "tot ?r = tot s"
    using False by (simp_all add: set_state_simps)
  have tr: "qcsched_cpu_transition ?r c qcsched_cpu_ready qcsched_cpu_activated =
      res_bind (g_assert (iothread_locked s) ?r) (\<lambda>u. Ok (True, qcsched_set_cpu_state ?r c qcsched_cpu_activated))"
    by (simp add: qcsched_cpu_transition_def qcsched_set_cpu_state_def upd_sched_def g_assert_def)
  have go: "res_spec b sched_inv (do_activate_breakpoint (qcsched_set_cpu_state ?r c qcsched_cpu_activated) c)"
    if "tot s \<noteq> 0"
  proof (cases "c = 0")
    case True
    then have "sched_inv (qcsched_set_cpu_state ?r c qcsched_cpu_activated)"
      by (intro set_state_inv [OF r]) simp
    then show ?thesis using True by (simp add: do_activate_breakpoint_def)
  next
    case False
    note st = started_inv [OF r _ False f(1) _ f(2), unfolded f, OF c that]
    obtain err t where ins: "kvm_insert_breakpoint_cpu (started ?r c) c (hook_addr (vmi_info (started ?r c))) 1 GDB_BREAKPOINT_HW = (err, t)"
      by fastforce
    have "ext (started ?r c) = ext s"
      by (simp add: started_def sched_init_once_def qcsched_set_cpu_state_def upd_sched_def upd_window_def Let_def split: option.splits)
    then have "b \<Longrightarrow> err = 0"
      using reinstall_hook_spec(3) [OF st(1,2) _ ins] st(3) assms(3) by (simp add: io_ok_def)
    moreover have "sched_inv t"
      using reinstall_hook_spec(1) [OF st(1,2) _ ins] st(3) by simp
    ultimately show ?thesis
      using False ins st(1) by (auto simp: do_activate_breakpoint_def started_def Let_def c_assert_def)
  qed
  show ?thesis
    using False r f go assms(4)
    by (auto simp: qcsched_activate_breakpoint_def Let_def tr qcsched_check_all_cpu_state_def sanitize_breakpoint_def g_assert_def
        intro!: spec_rules)
qed

end
