(* ===== verification/Hcall_Inv.thy ===== *)
theory Hcall_Inv
  imports Activate_Inv
begin

text \<open>
  The remaining hypercalls keep the invariant, and so does the dispatcher. The conditions under which
  a hypercall does not end the process are explicit.
\<close>

section \<open>Ending a schedule\<close>

text \<open>Ending: the CPU's window is closed, and the schedule is off and used up.\<close>

lemma ended_inv:
  assumes inv: "sched_inv s" and c: "c \<in> set (cpus s)" "cpu_state (sched s) c \<noteq> qcsched_cpu_idle" "\<not> blocked (infos s c)"
    and cl: "closed_by c (qcsched_set_cpu_state s c qcsched_cpu_deactivated) t"
  shows "sched_inv (upd_sched (\<lambda>q. q\<lparr>activated := False, used := used q \<or> activated q\<rparr>) t)" (is "sched_inv ?u")
proof -
  let ?s = "qcsched_set_cpu_state s c qcsched_cpu_deactivated"
  have on: "only c ?s t" and k: "closed_window t c" "core t c" "installed_on t c = {}" "hw_addrs t c \<subseteq> hw_addrs s c"
    using cl by (simp_all add: closed_by_def set_state_simps)
  note sk = only_skel [OF on]
  have f: "own ?u d i = own t d i" "installed_on ?u d = installed_on t d" "hw_wf ?u d = hw_wf t d" "hw_addrs ?u d = hw_addrs t d"
    "closed_window ?u d = closed_window t d" "left_ok ?u d n = left_ok t d n" "entries (sched ?u) = entries (sched t)" "tot ?u = tot t"
    "window ?u = window t" "cpus ?u = cpus t" "infos ?u = infos t" "vmi_info ?u = vmi_info t" "cpu_state (sched ?u) = cpu_state (sched t)"
    "current (sched ?u) = current (sched t)" "\<not> activated (sched ?u)" "used (sched ?u) = (used (sched t) \<or> activated (sched t))" for d i n
    by (simp_all add: own_def installed_on_def hw_wf_def hw_addrs_def closed_window_def left_ok_def upd_sched_def)
  have p: "core ?u d = core t d" "marks ?u d = marks t d" "cursor ?u d = cursor t d" for d
    by (simp_all add: core_def marks_def cursor_def f)
  have g: "tot t = tot s" "activated (sched t) = activated (sched s)" "used (sched t) = used (sched s)" "infos t = infos s"
    "cpu_state (sched t) d = (if d = c then qcsched_cpu_deactivated else cpu_state (sched s) d)" "cpus t = cpus s" for d
    by (simp_all add: skelD [OF sk] set_state_simps)
  have "glob ?u = glob t" "distinct_addrs ?u = distinct_addrs t"
    by (simp_all add: glob_def distinct_addrs_def f cong: if_cong)
  then have "glob ?u" "distinct_addrs ?u"
    using inv glob_skel [OF sk] distinct_addrs_skel [OF sk] by (simp_all add: sched_inv_def set_state_parts)
  moreover have "win ?u d" if d: "d \<in> set (cpus s)" for d
  proof (cases "d = c")
    case True
    have "quiet s c" if "c \<noteq> 0" using inv c(1) that by (simp add: sched_inv_def win_def)
    then have "quiet ?u c" if "c \<noteq> 0"
      using that k c unfolding quiet_def f g by (cases "cpu_state (sched s) c") (auto simp: f(15))
    moreover have "cursor ?u c" if "c \<noteq> 0"
      using k(1) unfolding p by (auto simp: cursor_def left_ok_def closed_window_def own_def END_OF_SCHEDPOINT_WINDOW_def)
    moreover have "marks ?u c" unfolding p by (simp add: marks_def k(3))
    ultimately show ?thesis using k(2) True by (simp add: win_def p)
  next
    case False
    have ws: "win ?s d" using inv d False by (simp add: sched_inv_def win_def set_state_parts)
    have "win t d" using only_other(2) [OF on False] ws by simp
    then show ?thesis
      using False by (auto simp: win_def p quiet_def f g)
  qed
  ultimately show ?thesis by (simp add: sched_inv_def f g)
qed

lemma escaped_inv:
  assumes inv: "sched_inv s" and e: "escaped d s t"
  shows "sched_inv t"
proof -
  have fr: "kvm_frame (s\<lparr>infos := infos t\<rparr>) t"
    and i: "infos t = (infos s)(d := (infos s d)\<lparr>blocked := False, waking_up := False\<rparr>)"
    and hw: "\<And>e. e \<noteq> d \<Longrightarrow> hw_breakpoint t e = hw_breakpoint s e" "hw_wf t d" "hw_addrs t d \<subseteq> hw_addrs s d"
    using e by (auto simp: escaped_def)
  have f: "sched t = sched s" "vmi_info t = vmi_info s" "cpus t = cpus s"
    using kvm_frame_simps [OF fr] by simp_all
  have hw': "hw_wf t e" "hw_addrs t e \<subseteq> hw_addrs s e" if "e \<in> set (cpus s)" for e
    using inv that hw hw_cong [of t e s] by (cases "e = d"; auto simp: sched_inv_def win_def core_def)+
  show ?thesis
  proof (rule sched_inv_windows [OF inv])
    show "glob t" using inv by (auto simp: sched_inv_def glob_def f i cong: if_cong)
    show "cursor t x \<and> quiet t x" if x: "x \<in> set (cpus s)" "cursor s x" "quiet s x" for x
    proof
      show "cursor t x" using x(2) by (simp add: cursor_def left_ok_def own_def f)
      have "blocked (infos t x) \<Longrightarrow> blocked (infos s x)" by (auto simp: i split: if_splits)
      moreover have "own t x k = own s x k" "installed_on t x = installed_on s x" "closed_window t x = closed_window s x" for k
        by (simp_all add: own_def installed_on_def closed_window_def f)
      ultimately show "quiet t x"
        using x(3) hw'(2) [OF x(1)] unfolding quiet_def f by auto
    qed
  qed (use hw' in \<open>simp_all add: f\<close>)
qed

lemma deactivate_spec:
  assumes inv: "sched_inv s" and c: "c \<in> set (cpus s)" "\<not> blocked (infos s c)"
    and "b \<Longrightarrow> io_ok s" and "b \<Longrightarrow> current_cpu s = c"
  shows "res_spec b (\<lambda>(r, t). sched_inv t) (qcsched_deactivate_breakpoint s c)"
proof (cases "cpu_state (sched s) c = qcsched_cpu_idle")
  case True
  then show ?thesis using inv by (simp add: qcsched_deactivate_breakpoint_def check_cpu_state_simps)
next
  case False
  let ?s = "qcsched_set_cpu_state s c qcsched_cpu_deactivated"
  have "glob ?s" "core ?s c" "marks ?s c" "b \<Longrightarrow> io_ok ?s" "b \<Longrightarrow> current_cpu ?s = c"
    using inv c(1) assms(4,5) by (simp_all add: sched_inv_def win_def set_state_parts set_state_simps io_ok_def)
  note close = close_window_spec [OF this]
  have "res_spec b (\<lambda>(r, t). sched_inv t) (res_bind (qcsched_window_close_window ?s c) (\<lambda>s.
          if \<not> activated (sched s) then Ok (0, s)
          else
            let s = upd_sched (\<lambda>q. q\<lparr>activated := False, used := True\<rparr>) s
            in res_bind (foreach (cpus s) (\<lambda>c0 s. if c0 = 0 then Ok s else remove_breakpoints_and_escape_cpu s c c0) s)
                 (\<lambda>s. Ok (0, s))))"
  proof (rule res_spec_bind [OF close])
    fix t
    assume t: "closed_by c ?s t"
    let ?u = "upd_sched (\<lambda>q. q\<lparr>activated := False, used := True\<rparr>) t"
    note ended = ended_inv [OF inv c(1) False c(2) t]
    have "upd_sched (\<lambda>q. q\<lparr>activated := False, used := used q \<or> activated q\<rparr>) t = t" if "\<not> activated (sched t)"
      using that by (intro qstate.equality qcsched.equality) (simp_all add: upd_sched_def)
    then have off: "sched_inv t" if "\<not> activated (sched t)" using ended that by simp
    have on: "sched_inv ?u" if "activated (sched t)" using ended that by (simp add: upd_sched_def)
    have "res_spec b (\<lambda>u. sched_inv u \<and> \<not> activated (sched u) \<and> set [] \<subseteq> set (cpus u))
        (foreach (cpus ?u) (\<lambda>c0 s. if c0 = 0 then Ok s else remove_breakpoints_and_escape_cpu s c c0) ?u)"
      if "activated (sched t)"
    proof (rule foreach_spec [where I = "\<lambda>ys u. sched_inv u \<and> \<not> activated (sched u) \<and> set ys \<subseteq> set (cpus u)"], goal_cases)
      case 1
      then show ?case using on [OF that] by (simp add: upd_sched_def)
    next
      case (2 d ys u)
      have "hw_wf u d" using 2 by (auto simp: sched_inv_def win_def core_def)
      moreover have "sched_inv v \<and> \<not> activated (sched v) \<and> set ys \<subseteq> set (cpus v)" if "escaped d u v" for v
        using 2 escaped_inv [OF _ that] that by (auto simp: escaped_def kvm_frame_def)
      ultimately show ?case
        using 2 by (auto intro: res_spec_mono [OF remove_and_escape_spec])
    qed
    then show "res_spec b (\<lambda>(r, t). sched_inv t) (if \<not> activated (sched t) then Ok (0, t)
        else let s = ?u in res_bind (foreach (cpus s) (\<lambda>c0 s. if c0 = 0 then Ok s
          else remove_breakpoints_and_escape_cpu s c c0) s) (\<lambda>s. Ok (0, s)))"
      using off by (auto simp: Let_def intro!: res_spec_bind [where P = sched_inv] elim: res_spec_mono)
  qed
  then show ?thesis
    using False by (simp add: qcsched_deactivate_breakpoint_def check_cpu_state_simps)
qed

section \<open>Footprints\<close>

lemma footprint_loop_mem: "footprint_loop c p is i n r s = (ok, n', r', t) \<Longrightarrow> mem_only s t"
proof (induction c p "is" i n r s arbitrary: ok n' r' t rule: footprint_loop.induct)
  case (1 c p i n r s)
  then show ?case by simp
next
  case (2 c p k ks i n r s)
  obtain e b u where rw: "cpu_memory_rw_debug s c (p + i) (le_bytes 8 (footprint_code (e_footprint (entry s k)))) True = (e, b, u)"
    by (metis prod_cases3)
  have u: "mem_only s u"
    using cpu_memory_rw_debug_frame [OF rw] by (blast intro: mem_only_pmem)
  show ?case
    using 2 rw u by (auto simp: Let_def split: if_splits intro: mem_only_trans [OF u])
qed

lemma footprint_mem: "mem_only s (snd (qcsched_footprint_breakpoint s c a p q))"
proof -
  obtain ok n r t where l: "footprint_loop c p [0..tot s - 1] 0 0 0 s = (ok, n, r, t)"
    by (metis prod_cases4)
  obtain e b u where a: "cpu_memory_rw_debug t c a (le_bytes 8 n) True = (e, b, u)"
    by (metis prod_cases3)
  obtain e' b' v where q: "cpu_memory_rw_debug u c q (le_bytes 8 r) True = (e', b', v)"
    by (metis prod_cases3)
  have "mem_only s t" "mem_only t u" "mem_only u v"
    using footprint_loop_mem [OF l] cpu_memory_rw_debug_frame [OF a] cpu_memory_rw_debug_frame [OF q] by (blast intro: mem_only_pmem)+
  then show ?thesis
    using l a q by (auto simp: qcsched_footprint_breakpoint_def Let_def intro: mem_only_trans)
qed

section \<open>Clearing\<close>

lemma clear_fold:
  "fold (\<lambda>i s. if e_cpu (entry s i) \<noteq> c then s else upd_entry i (\<lambda>_. zero_entry) s) xs s =
     s\<lparr>sched := (sched s)\<lparr>entries := \<lambda>i. if i \<in> set xs \<and> e_cpu (entry s i) = c then zero_entry else entry s i\<rparr>\<rparr>"
proof (induction xs arbitrary: s)
  case Nil
  then show ?case by simp
next
  case (Cons x xs)
  show ?case
    by (auto simp: Cons upd_entry_def intro!: qstate.equality qcsched.equality)
qed

lemma clear_inv:
  assumes inv: "sched_inv s" and c: "c \<in> set (cpus s)" "cpu_state (sched s) c = qcsched_cpu_deactivated"
  shows "sched_inv (kvm_remove_all_breakpoints_cpu
    (fold (\<lambda>i s. if e_cpu (entry s i) \<noteq> c then s else upd_entry i (\<lambda>_. zero_entry) s) [0..tot s - 1]
      (qcsched_set_cpu_state s c qcsched_cpu_idle)) c)" (is "sched_inv (kvm_remove_all_breakpoints_cpu ?u c)")
proof -
  define t where "t = kvm_remove_all_breakpoints_cpu ?u c"
  note fr = kvm_remove_all_breakpoints_cpu_frame [where s = ?u and c = c, folded t_def]
  note k = kvm_frame_simps [OF fr(1)]
  have gl: "glob s" using inv by (simp add: sched_inv_def)
  have e: "entry t i = (if 0 \<le> i \<and> i < tot s \<and> e_cpu (entry s i) = c then zero_entry else entry s i)" for i
    by (simp add: k clear_fold set_state_simps)
  have f: "window t = window s" "cpus t = cpus s" "infos t = infos s" "vmi_info t = vmi_info s" "tot t = tot s"
    "current (sched t) = current (sched s)" "activated (sched t) = activated (sched s)" "used (sched t) = used (sched s)"
    "cpu_state (sched t) d = (if d = c then qcsched_cpu_idle else cpu_state (sched s) d)" for d
    by (simp_all add: k clear_fold set_state_simps)
  have "hw_breakpoint t d = hw_breakpoint s d" if "d \<noteq> c" for d
    using fr(2) [OF that] by (simp add: clear_fold qcsched_set_cpu_state_def upd_sched_def)
  then have hw: "hw_addrs t d = (if d = c then {} else hw_addrs s d)" "hw_wf t d \<longleftrightarrow> d = c \<or> hw_wf s d" for d
    using fr(3,4) hw_cong [of t d s] by (cases "d = c"; simp)+
  have own: "own t d i \<longleftrightarrow> d \<noteq> c \<and> own s d i" if "d \<noteq> 0" for d i
    using that own_iff [OF gl that, of i] by (auto simp: own_def e)
  have closed: "closed_window s c" "cursor s c" if "c \<noteq> 0"
    using inv c that by (auto simp: sched_inv_def win_def quiet_def)
  have none: "installed_on s c = {}"
    using inv c(1) closed by (cases "c = 0") (auto simp: sched_inv_def win_def core_def closed_window_def)
  have e': "entry t i = entry s i" if "own s d i" "d \<noteq> c" for d i
    using that by (auto simp: e own_def)
  have ion: "installed_on t d = installed_on s d" for d
    using none e' [of d] by (cases "d = c") (auto simp: installed_on_def own_def e split: if_splits)
  have "glob t"
    using gl c(1) by (auto simp: glob_def f e)
  moreover have "distinct_addrs t"
    using inv e' by (auto simp: sched_inv_def distinct_addrs_def own f)
  moreover have "win t d" if d: "d \<in> set (cpus s)" for d
  proof (cases "d = c")
    case True
    have "core t c" "marks t c"
      using inv c(1) none by (auto simp: sched_inv_def win_def core_def marks_def ion f hw)
    moreover have "cursor t c" "quiet t c" if "c \<noteq> 0"
    proof -
      have "quiet s c" using inv c(1) that by (simp add: sched_inv_def win_def)
      then show "cursor t c" "quiet t c"
        using closed(1) [OF that] c(2)
        by (simp_all add: cursor_def quiet_def left_ok_def closed_window_def own [OF that] none ion f hw)
    qed
    ultimately show ?thesis using True by (simp add: win_def)
  next
    case False
    have w: "win s d" using inv d by (simp add: sched_inv_def)
    have im: "(\<lambda>i. e_addr (entry t i)) ` installed_on s d = (\<lambda>i. e_addr (entry s i)) ` installed_on s d"
      using e' [OF _ False] by (intro image_cong) (auto simp: installed_on_def)
    have "core t d"
      using w e' [OF _ False] unfolding win_def core_def ion im by (auto simp: False f hw installed_on_def)
    moreover have "marks t d"
      using w e' [OF _ False] unfolding win_def marks_def ion by (auto simp: installed_on_def)
    moreover have "cursor t d" "quiet t d" if "d \<noteq> 0"
    proof -
      have q: "cursor s d" "quiet s d" using w that by (simp_all add: win_def)
      have o: "own t d i = own s d i" "closed_window t d = closed_window s d" "cpu_state (sched t) d = cpu_state (sched s) d"
        "hw_addrs t d = hw_addrs s d" for i
        using own [OF that] False by (simp_all add: closed_window_def f hw)
      show "cursor t d" "quiet t d"
        using q e' [OF _ False] unfolding cursor_def quiet_def left_ok_def o ion f(1,3,5,7,8) by auto
    qed
    ultimately show ?thesis by (simp add: win_def)
  qed
  ultimately show ?thesis
    unfolding t_def [symmetric] by (simp add: sched_inv_def f)
qed

lemma clear_spec:
  assumes "sched_inv s" and "c \<in> set (cpus s)" and "b \<Longrightarrow> iothread_locked s"
  shows "res_spec b (\<lambda>(r, t). sched_inv t) (qcsched_clear_breakpoint s c)"
  using assms clear_inv [OF assms(1,2)]
  by (auto simp: qcsched_clear_breakpoint_def qcsched_cpu_transition_def qcsched_set_cpu_state_def upd_sched_def
      Let_def g_assert_def)

section \<open>Hints\<close>

text \<open>
  A hint that moves the hook is only sound while nothing is armed and no worker has an entry at the
  new address.
\<close>

definition hint_ok :: "qstate \<Rightarrow> u64 \<Rightarrow> u64 \<Rightarrow> bool" where
  "hint_ok s type addr \<longleftrightarrow> (type = VMI_HOOK \<longrightarrow>
     (\<forall>c\<in>set (cpus s). hw_addrs s c = {}) \<and> (\<forall>c i. c \<noteq> 0 \<longrightarrow> own s c i \<longrightarrow> e_addr (entry s i) \<noteq> addr))"

lemma hint_hook_inv:
  assumes inv: "sched_inv s" and "\<forall>c\<in>set (cpus s). hw_addrs s c = {}" and "\<forall>c i. c \<noteq> 0 \<longrightarrow> own s c i \<longrightarrow> e_addr (entry s i) \<noteq> addr"
  shows "sched_inv (qcsched_vmi_hint_hook s addr)" (is "sched_inv ?t")
proof -
  have f: "own ?t d i = own s d i" "installed_on ?t d = installed_on s d" "hw_wf ?t d = hw_wf s d" "hw_addrs ?t d = hw_addrs s d"
    "closed_window ?t d = closed_window s d" "left_ok ?t d n = left_ok s d n" "sched ?t = sched s" "cpus ?t = cpus s" "infos ?t = infos s"
    "hook_addr (vmi_info ?t) = addr" "lock_info (vmi_info ?t) = lock_info (vmi_info s)" for d i n
    by (simp_all add: own_def installed_on_def hw_wf_def hw_addrs_def closed_window_def left_ok_def
        qcsched_vmi_hint_hook_def upd_vmi_def)
  have "glob ?t = glob s" "marks ?t d = marks s d" "cursor ?t d = cursor s d" "quiet ?t d = quiet s d" for d
    by (simp_all add: glob_def marks_def cursor_def quiet_def f)
  moreover have "core ?t d" if "d \<in> set (cpus s)" "core s d" for d
    using that assms(2) by (simp add: core_def f)
  ultimately show ?thesis
    using inv assms(3) by (auto simp: sched_inv_def distinct_addrs_def win_def f)
qed

lemma hint_inv:
  assumes "sched_inv s" and "hint_ok s type addr"
  shows "sched_inv (snd (qcsched_vmi_hint s c type addr ip))"
proof (cases "type = VMI_HOOK")
  case True
  then have "snd (qcsched_vmi_hint s c type addr ip) = qcsched_vmi_hint_hook s addr"
    by (simp add: qcsched_vmi_hint_def vmi_type_defs)
  then show ?thesis
    using assms True hint_hook_inv by (simp add: hint_ok_def)
next
  case False
  let ?t = "snd (qcsched_vmi_hint s c type addr ip)"
  have "sched ?t = sched s" "hook_addr (vmi_info ?t) = hook_addr (vmi_info s)" "lock_info (vmi_info ?t) = lock_info (vmi_info s)"
    "infos ?t = infos s" "cpus ?t = cpus s" "hw_breakpoint ?t = hw_breakpoint s"
    using False by (auto simp: qcsched_vmi_hint_def qcsched_vmi_hint_trampoline_def qcsched_vmi_hint_per_cpu_offset_def
        qcsched_vmi_hint_current_task_def qcsched_vmi_hint_ssb_do_emulate_def qcsched_vmi_hint_preempt_count_def
        qcsched_vmi_lock_acquire_def qcsched_vmi_lock_release_def qcsched_vmi_lockdep_whitelist_def upd_vmi_def Let_def)
  then show ?thesis by (intro sched_inv_cong [OF assms(1)]) simp_all
qed

section \<open>The dispatcher\<close>

text \<open>What the guest owes to a hypercall for the invariant to survive it.\<close>

definition hcall_ok :: "qstate \<Rightarrow> int \<Rightarrow> (nat \<Rightarrow> u64) \<Rightarrow> bool" where
  "hcall_ok s c args \<longleftrightarrow>
     (args 0 = HCALL_RESET \<longrightarrow> (\<forall>d\<in>set (cpus s) - {0}. hook_addr (vmi_info s) \<notin> hw_addrs s d)) \<and>
     (args 0 = HCALL_INSTALL_BP \<longrightarrow> installable s c (args 1)) \<and>
     (args 0 = HCALL_VMI_HINT \<longrightarrow> hint_ok s (args 1) (args 2))"

text \<open>What it and the host owe to it for the process to survive it.\<close>

definition hcall_safe :: "qstate \<Rightarrow> int \<Rightarrow> (nat \<Rightarrow> u64) \<Rightarrow> bool" where
  "hcall_safe s c args \<longleftrightarrow> io_ok s \<and> current_cpu s = c \<and> kssb_ok s c \<and>
     (args 0 = HCALL_INSTALL_BP \<longrightarrow>
        tot s \<le> orig_nr_bps (sched s) \<and> 0 \<le> int_of_u64 (args 2) \<and> is_ok (qcsched_vmi_task s c))"

lemma dispatch_hcall_spec:
  assumes inv: "sched_inv s" and c: "c \<in> set (cpus s)" "\<not> blocked (infos s c)" and ok: "hcall_ok s c args"
    and "b \<Longrightarrow> hcall_safe s c args" and "b \<Longrightarrow> iothread_locked s"
  shows "res_spec b (\<lambda>(r, t). sched_inv t) (dispatch_hcall s c args)"
proof -
  note safe = assms(5) [unfolded hcall_safe_def]
  have "res_spec b (\<lambda>(r, t). sched_inv t) (res_bind (qcsched_reset s c) (\<lambda>s. Ok (0, s)))" if "args 0 = HCALL_RESET"
    by (rule res_spec_bind [OF reset_spec [OF resettable_inv [OF inv]]])
      (use that ok safe in \<open>auto simp: hcall_ok_def fresh_def\<close>)
  moreover have "res_spec b (\<lambda>(r, t). sched_inv t) (qcsched_install_breakpoint s c (args 1) (int_of_u64 (args 2)) (ucast (args 3)))"
    if "args 0 = HCALL_INSTALL_BP"
    by (rule install_spec [OF inv c(1)]) (use that ok safe in \<open>auto simp: hcall_ok_def\<close>)
  moreover have "res_spec b (\<lambda>(r, t). sched_inv t) (qcsched_activate_breakpoint s c)"
    "res_spec b (\<lambda>(r, t). sched_inv t) (qcsched_deactivate_breakpoint s c)"
    "res_spec b (\<lambda>(r, t). sched_inv t) (qcsched_clear_breakpoint s c)"
    using activate_spec [OF inv c(1)] deactivate_spec [OF inv c] clear_spec [OF inv c(1)] safe assms(6) by auto
  moreover have "res_spec b (\<lambda>(r, t). sched_inv t) (qcsched_enable_kssb s c)"
    "res_spec b (\<lambda>(r, t). sched_inv t) (qcsched_disable_kssb s c)"
    by (rule res_spec_mono [OF kssb_spec(1)] res_spec_mono [OF kssb_spec(2)]; use safe mem_only_inv [OF inv] in auto)+
  moreover have "sched_inv (snd (qcsched_prepare s n m))" "sched_inv (snd (qcsched_footprint_breakpoint s c a p q))" for n m a p q
    using prepare_inv [OF inv] mem_only_inv [OF inv footprint_mem] by auto
  moreover have "sched_inv (snd (qcsched_vmi_hint s c (args 1) (args 2) (args 3)))" if "args 0 = HCALL_VMI_HINT"
    using hint_inv [OF inv] ok that by (simp add: hcall_ok_def)
  ultimately show ?thesis
    unfolding dispatch_hcall_def Let_def using inv by (intro res_spec_if) (simp_all add: split_beta)
qed

text \<open>What no hypercall changes.\<close>

definition kept :: "qstate \<Rightarrow> qstate \<Rightarrow> bool" where
  "kept s t \<longleftrightarrow> iothread_locked t = iothread_locked s \<and> cpus t = cpus s \<and> ext t = ext s \<and>
     phys_page t = phys_page s \<and> current_cpu t = current_cpu s"

lemma kept_refl [simp]: "kept s s"
  by (simp add: kept_def)

lemma kept_trans: "kept s t \<Longrightarrow> kept t u \<Longrightarrow> kept s u"
  by (simp add: kept_def)

lemma kept_upd [simp]:
  "kept s (upd_sched f t) = kept s t" "kept s (upd_cpu c g t) = kept s t" "kept s (upd_info c h t) = kept s t"
  "kept s (upd_window c k t) = kept s t" "kept s (upd_entry i l t) = kept s t" "kept s (upd_vmi m t) = kept s t"
  "kept s (t\<lparr>warn_once := w\<rparr>) = kept s t" "kept s (t\<lparr>pmem := p\<rparr>) = kept s t" "kept s (t\<lparr>vm_running := v\<rparr>) = kept s t"
  by (simp_all add: kept_def upd_defs)

lemma kept_frame: "kvm_frame s t \<Longrightarrow> kept s t"
  by (simp add: kept_def kvm_frame_def)

lemma kept_skel: "skel t = skel s \<Longrightarrow> kept s t"
  by (simp add: kept_def skelD [of t s])

lemma kept_mem: "mem_only s t \<Longrightarrow> kept s t"
  by (simp add: kept_def mem_onlyD)

lemma escape_kept: "res_spec b (kept s) (remove_breakpoints_and_escape_cpu s c d)" if "b \<Longrightarrow> \<not> activated (sched s)"
proof -
  have "kvm_frame s (fold (\<lambda>i s. if e_cpu (entry s i) = d
      then snd (kvm_remove_breakpoint_cpu s d (e_addr (entry s i)) 1 GDB_BREAKPOINT_HW) else s) xs s)" for xs
  proof (induction xs arbitrary: s)
    case (Cons i xs)
    have "kvm_frame s (snd (kvm_remove_breakpoint_cpu s d a 1 GDB_BREAKPOINT_HW))" for s a
      using kvm_remove_breakpoint_cpu_frame(1) by (metis prod.collapse)
    with Cons show ?case by (auto simp: kvm_frame_def)
  qed simp
  then show ?thesis
    using that by (auto simp: remove_breakpoints_and_escape_cpu_def escape_if_kidnapped_def reset_exec_control_def
        blocker_reset_def wake_cpu_up_def blocker_wake_cpu_up_def c_assert_def intro!: kept_frame)
qed

lemma kssb_kept:
  assumes "kept s u"
  shows "res_spec False (\<lambda>(r, t). kept s t) (qcsched_enable_kssb u c)"
    "res_spec False (\<lambda>(r, t). kept s t) (qcsched_disable_kssb u c)"
  using kept_trans [OF assms kept_mem]
  by (auto intro: res_spec_mono [OF kssb_spec(1)] res_spec_mono [OF kssb_spec(2)])

lemma reset_kept: "res_spec False (kept s) (qcsched_reset s c)"
proof -
  have "res_spec False (kept s) (reset_one c d t)" if "kept s t" for d t
    unfolding reset_one_def Let_def qcsched_set_cpu_state_def qcsched_reset_window_def qcsched_reset_cookie_def
      qcsched_vmi_lock_info_reset_def upd_record_def
    by (intro res_spec_if res_spec_Ok res_spec_bind [where P = "kept s"] res_spec_mono [OF escape_kept])
      (use that in \<open>auto intro: kept_trans\<close>)
  then have loop: "res_spec False (kept s) (foreach (cpus (upd_sched f s)) (reset_one c) (upd_sched f s))" for f
    by (intro foreach_spec [where I = "\<lambda>_. kept s"]) auto
  show ?thesis
    unfolding qcsched_reset_def Let_def by (intro res_spec_bind [OF loop] res_spec_bind [OF kssb_kept(2)]) auto
qed

lemma activate_kept: "res_spec False (\<lambda>(r, t). kept s t) (qcsched_activate_breakpoint s c)"
proof -
  have ins: "kept s u" if "kvm_insert_breakpoint_cpu t c a 1 GDB_BREAKPOINT_HW = (e, u)" "kept s t" for t a e u
    using that kept_trans kept_frame [OF kvm_insert_breakpoint_cpu_frame(1)] by blast
  have "kept s (sched_init_once t)" if "kept s t" for t
    using that by (auto simp: sched_init_once_def Let_def split: option.splits)
  then have "res_spec False (kept s) (do_activate_breakpoint t c)" if "kept s t" for t
    unfolding do_activate_breakpoint_def Let_def
    by (intro res_spec_if res_spec_Ok res_spec_prod res_spec_c_assert) (use that in \<open>auto elim!: ins\<close>)
  then show ?thesis
    by (auto simp: qcsched_activate_breakpoint_def qcsched_check_all_cpu_state_def qcsched_cpu_transition_def
        qcsched_set_cpu_state_def g_assert_def Let_def intro!: res_spec_bind [where P = "kept s"])
qed

lemma deactivate_kept:
  assumes inv: "sched_inv s" and c: "c \<in> set (cpus s)"
  shows "res_spec False (\<lambda>(r, t). kept s t) (qcsched_deactivate_breakpoint s c)"
proof -
  let ?s = "qcsched_set_cpu_state s c qcsched_cpu_deactivated"
  have "glob ?s" "core ?s c" "marks ?s c" "kept s ?s"
    using inv c by (simp_all add: sched_inv_def win_def set_state_parts) (simp add: qcsched_set_cpu_state_def)
  then have close: "res_spec False (kept s) (qcsched_window_close_window ?s c)"
    by (intro res_spec_mono [OF close_window_spec]) (auto simp: closed_by_def only_def intro: kept_trans [OF _ kept_skel])
  have free: "res_spec False (kept s) (foreach ds (\<lambda>c0 s. if c0 = 0 then Ok s else remove_breakpoints_and_escape_cpu s c c0) t)"
    if "kept s t" for ds t
    by (rule foreach_spec [where I = "\<lambda>_. kept s"])
      (use that in \<open>auto intro: res_spec_mono [OF escape_kept] kept_trans\<close>)
  show ?thesis
    unfolding qcsched_deactivate_breakpoint_def Let_def
    by (intro res_spec_if res_spec_bind [OF close] res_spec_bind [OF free] res_spec_Ok) auto
qed

lemma dispatch_kept:
  assumes inv: "sched_inv s" and c: "c \<in> set (cpus s)"
  shows "res_spec False (\<lambda>(r, t). kept s t) (dispatch_hcall s c args)"
proof -
  have "res_spec False (\<lambda>(r, t). kept s t) (res_bind (qcsched_reset s c) (\<lambda>s. Ok (0, s)))"
    by (rule res_spec_bind [OF reset_kept]) simp
  moreover have "kept s (snd (qcsched_prepare s n m))" for n m
    by (simp add: qcsched_prepare_def Let_def)
  moreover have "res_spec False (\<lambda>(r, t). kept s t) (qcsched_install_breakpoint s c a i f)" for a i f
    unfolding qcsched_install_breakpoint_def Let_def
    by (intro res_spec_bind_c_assert res_spec_if res_spec_bind [where P = "\<lambda>_. True"]) (auto simp: res_spec_True)
  moreover have "res_spec False (\<lambda>(r, t). kept s t) (qcsched_clear_breakpoint s c)"
    using kept_trans [OF _ kept_frame [OF kvm_remove_all_breakpoints_cpu_frame(1)]]
    by (auto simp: qcsched_clear_breakpoint_def qcsched_cpu_transition_def clear_fold Let_def g_assert_def kept_def upd_sched_def)
  moreover have "kept s (snd (qcsched_vmi_hint s c a p q))" "kept s (snd (qcsched_footprint_breakpoint s c a p q))" for a p q
    using kept_mem [OF footprint_mem] by (simp_all add: qcsched_vmi_hint_def qcsched_vmi_hint_trampoline_def
        qcsched_vmi_hint_per_cpu_offset_def qcsched_vmi_hint_current_task_def qcsched_vmi_hint_ssb_do_emulate_def
        qcsched_vmi_hint_preempt_count_def qcsched_vmi_hint_hook_def qcsched_vmi_lock_acquire_def
        qcsched_vmi_lock_release_def qcsched_vmi_lockdep_whitelist_def Let_def)
  ultimately show ?thesis
    unfolding dispatch_hcall_def Let_def
    using kssb_kept [OF kept_refl] activate_kept deactivate_kept [OF inv c]
    by (intro res_spec_if) (simp_all add: split_beta)
qed

lemma commit_state_inv:
  "sched_inv t \<Longrightarrow> sched_inv (commit_state (t\<lparr>iothread_locked := l\<rparr>) c r)" "kept s (commit_state t c r) = kept s t"
  "iothread_locked (commit_state t c r) = iothread_locked t"
  unfolding commit_state_def skip_executed_vmcall_def by (intro sched_inv_lock, simp_all) (simp add: upd_cpu_def)

lemma handle_hcall_spec:
  assumes inv: "sched_inv s" and c: "c \<in> set (cpus s)" "\<not> blocked (infos s c)" and ok: "hcall_ok s c args"
    and "b \<Longrightarrow> hcall_safe s c args" and "b \<Longrightarrow> \<not> iothread_locked s"
  shows "res_spec b (\<lambda>t. sched_inv t \<and> \<not> iothread_locked t \<and> kept s t) (qcsched_handle_hcall s c args)"
proof -
  let ?u = "qcsched_eat_cookie (s\<lparr>iothread_locked := True\<rparr>) c cookie_hcall"
  have u: "sched_inv ?u" "c \<in> set (cpus ?u)" "\<not> blocked (infos ?u c)"
    by (intro sched_inv_lock inv) (use c in \<open>simp_all add: upd_cpu_def\<close>)
  have f: "hw_addrs ?u d = hw_addrs s d" "own ?u d i = own s d i" "qcsched_vmi_task ?u c = qcsched_vmi_task s c" for d i
    by (simp_all add: hw_addrs_def own_def upd_cpu_def) (rule vmi_read_cong, simp_all add: upd_cpu_def)
  have ok': "hcall_ok ?u c args" "hcall_safe s c args \<Longrightarrow> hcall_safe ?u c args"
    using ok unfolding hcall_ok_def hcall_safe_def installable_def hint_ok_def f
    by (auto simp: upd_cpu_def kssb_ok_def io_ok_def)
  have "res_spec b (\<lambda>(r, t). sched_inv t) (dispatch_hcall ?u c args)"
    by (rule dispatch_hcall_spec [OF u ok'(1)]) (use assms(5) ok'(2) in \<open>auto simp: upd_cpu_def\<close>)
  moreover have "res_spec False (\<lambda>(r, t). kept ?u t) (dispatch_hcall ?u c args)"
    by (rule dispatch_kept [OF u(1,2)])
  ultimately have d: "res_spec b (\<lambda>(r, t). sched_inv t \<and> kept ?u t) (dispatch_hcall ?u c args)"
    by (cases "dispatch_hcall ?u c args") auto
  have e: "res_spec b (\<lambda>t. sched_inv t \<and> \<not> iothread_locked t \<and> kept s t) (res_bind (dispatch_hcall ?u c args) (\<lambda>(ret, s).
         res_bind (qemu_mutex_unlock_iothread s) (\<lambda>s.
           if \<not> qcsched_jumped_into_trampoline s c then Ok (commit_state s c ret) else Ok s)))"
    if "\<not> iothread_locked s"
    by (rule res_spec_bind [OF d])
      (use that in \<open>auto simp: qemu_mutex_unlock_iothread_def qcsched_jumped_into_trampoline_def commit_state_inv
        g_assert_def, auto simp: kept_def upd_cpu_def\<close>)
  then show ?thesis
    unfolding qcsched_handle_hcall_def qemu_mutex_lock_iothread_def res_bind_assoc
    by (intro res_spec_bind_g_assert) (use assms(6) in auto)
qed

end
