(* ===== verification/Kvm_Run.thy ===== *)
theory Kvm_Run
  imports Hcall
begin

text \<open>
  The vCPU loop around the handlers: \<^verbatim>\<open>qcsched_pre_run\<close> and \<^verbatim>\<open>qcsched_post_run\<close>
  (\<^verbatim>\<open>qcsched/qcsched.c\<close>), the signal handler, the classification of debug exits, and one
  round of \<^verbatim>\<open>kvm_cpu_exec\<close> (\<^verbatim>\<open>accel/kvm/kvm-all.c\<close>). What KVM does between entry and
  exit is the argument \<open>run_out\<close>.
\<close>

section \<open>Registers\<close>

definition kvm_read_registers :: "qstate \<Rightarrow> int \<Rightarrow> int \<times> qstate" where
  "kvm_read_registers s c =
     (let r = ext_get_regs (ext s) c in
      (r, if r = 0 then upd_cpu c (\<lambda>p. p\<lparr>regs := vcpu_regs s c\<rparr>) s else s))"

definition kvm_write_registers :: "qstate \<Rightarrow> int \<Rightarrow> int \<times> qstate" where
  "kvm_write_registers s c =
     (let r = ext_set_regs (ext s) c in
      (r, if r = 0 then s\<lparr>vcpu_regs := (vcpu_regs s)(c := regs (cpu_of s c))\<rparr> else s))"

definition qcsched_pre_run :: "qstate \<Rightarrow> int \<Rightarrow> (bool \<times> qstate) res" where
  "qcsched_pre_run s c =
     res_bind (g_assert (\<not> iothread_locked s) s) (\<lambda>s.
       res_bind (if qcsched_dirty (cpu_of s c)
                 then let (r, s) = kvm_write_registers s c in
                      res_bind (c_assert (r = 0) s) (\<lambda>s.
                        Ok (upd_cpu c (\<lambda>p. p\<lparr>qcsched_dirty := False\<rparr>) s))
                 else Ok s) (\<lambda>s.
         Ok (\<not> task_kidnapped s c, s)))"

definition qcsched_post_run :: "qstate \<Rightarrow> int \<Rightarrow> qstate res" where
  "qcsched_post_run s c =
     (let (r, s) = kvm_read_registers s c in
      res_bind (c_assert (r = 0) s) (\<lambda>s.
        res_bind (qemu_mutex_lock_iothread s) (\<lambda>s.
          res_bind (if want_to_wake_up s c then resume_task s c else Ok s)
            qemu_mutex_unlock_iothread)))"

text \<open>The timer exists but is not armed.\<close>

definition qcsched_init_vcpu :: "qstate \<Rightarrow> int \<Rightarrow> qstate res" where
  "qcsched_init_vcpu s c =
     res_bind (c_assert (ext_timer_create (ext s) c = 0) s) (\<lambda>s.
       Ok (upd_info c (\<lambda>x. x\<lparr>timer := None\<rparr>) s))"

section \<open>Signals\<close>

definition kvm_cpu_kick :: "qstate \<Rightarrow> int \<Rightarrow> qstate" where
  "kvm_cpu_kick s c = upd_cpu c (\<lambda>p. p\<lparr>immediate_exit := True\<rparr>) s"

text \<open>
  The signal handler runs on the thread of CPU \<open>c\<close>; \<open>value\<close> is the integer the signal carries.
\<close>

definition kvm_ipi_signal :: "qstate \<Rightarrow> int \<Rightarrow> u32 \<Rightarrow> qstate" where
  "kvm_ipi_signal s c value =
     kvm_cpu_kick
       (if value = TRAMPOLINE_ESCAPE_MAGIC then upd_info c (\<lambda>x. x\<lparr>kicked := True\<rparr>) s else s) c"

definition kvm_eat_signals :: "qstate \<Rightarrow> int \<Rightarrow> qstate" where
  "kvm_eat_signals s c = upd_cpu c (\<lambda>p. p\<lparr>immediate_exit := False\<rparr>) s"

section \<open>Debug exits\<close>

definition EXCP_INTERRUPT :: int where "EXCP_INTERRUPT = 0x10000"
definition EXCP_DEBUG :: int where "EXCP_DEBUG = 0x10002"

record kvm_debug_exit_arch =
  dbg_exception :: u32
  dbg_pc :: u64
  dbg_dr6 :: u64
  dbg_dr7 :: u64

text \<open>
  The value \<^verbatim>\<open>kvm_handle_debug\<close> returns; \<open>sw_bps\<close> are the addresses of software
  breakpoints.
\<close>

definition kvm_handle_debug :: "qstate \<Rightarrow> int \<Rightarrow> u64 list \<Rightarrow> kvm_debug_exit_arch \<Rightarrow> int" where
  "kvm_handle_debug s c sw_bps a =
     (if dbg_exception a = 1 then
        if bit (dbg_dr6 a) 14 then (if singlestep_enabled (cpu_of s c) then EXCP_DEBUG else 0)
        else if list_ex (\<lambda>n. bit (dbg_dr6 a) n \<and>
                  drop_bit (16 + n * 4) (dbg_dr7 a) AND 3 \<in> {0, 1, 3}) [0..<4]
        then EXCP_DEBUG else 0
      else if dbg_pc a \<in> set sw_bps then EXCP_DEBUG else 0)"

section \<open>One round of the vCPU loop\<close>

text \<open>
  \<open>Exit_other r\<close> stands for the exits the scheduler does not handle, with the value their handler
  returns.
\<close>

datatype kvm_exit =
    Exit_hcall "nat \<Rightarrow> u64"
  | Exit_debug kvm_debug_exit_arch
  | Exit_other int

record run_out =
  run_ret :: int
  exit_reason :: kvm_exit
  guest_regs :: kvm_regs
  guest_pmem :: "u64 \<Rightarrow> u8"

text \<open>
  \<^verbatim>\<open>KVM_RUN\<close>: with \<^verbatim>\<open>immediate_exit\<close> set it returns \<^verbatim>\<open>-EINTR\<close> without entering the guest.
\<close>

definition kvm_run :: "qstate \<Rightarrow> int \<Rightarrow> run_out \<Rightarrow> int \<times> qstate" where
  "kvm_run s c out =
     (if immediate_exit (cpu_of s c) then (- EINTR, s)
      else (run_ret out, s\<lparr>vcpu_regs := (vcpu_regs s)(c := guest_regs out), pmem := guest_pmem out\<rparr>))"

definition kvm_handle_exit :: "qstate \<Rightarrow> int \<Rightarrow> u64 list \<Rightarrow> kvm_exit \<Rightarrow> (int \<times> qstate) res" where
  "kvm_handle_exit s c sw_bps x =
     (case x of
        Exit_hcall args \<Rightarrow> res_bind (qcsched_handle_hcall s c args) (\<lambda>s. Ok (0, s))
      | Exit_debug a \<Rightarrow>
          res_bind (qemu_mutex_lock_iothread s) (\<lambda>s.
            res_bind (qemu_mutex_unlock_iothread s) (\<lambda>s.
              let ret = kvm_handle_debug s c sw_bps a in
              if ret = EXCP_DEBUG then qcsched_handle_breakpoint s c else Ok (ret, s)))
      | Exit_other r \<Rightarrow> if r = EXCP_DEBUG then qcsched_handle_breakpoint s c else Ok (r, s))"

definition kvm_cpu_exec_round :: "qstate \<Rightarrow> int \<Rightarrow> u64 list \<Rightarrow> run_out \<Rightarrow> (int \<times> qstate) res" where
  "kvm_cpu_exec_round s c sw_bps out =
     res_bind (qcsched_pre_run s c) (\<lambda>(go, s).
       let s = (if \<not> go then kvm_cpu_kick s c else s);
           (ret, s) = kvm_run s c out
       in res_bind (qcsched_post_run s c) (\<lambda>s.
            if ret < 0 then
              if ret = - EINTR \<or> ret = - EAGAIN
              then res_bind (qcsched_handle_kick (kvm_eat_signals s c) c) (\<lambda>s. Ok (EXCP_INTERRUPT, s))
              else Ok (- 1, s)
            else kvm_handle_exit s c sw_bps (exit_reason out)))"

text \<open>The loop of \<^verbatim>\<open>kvm_cpu_exec\<close>, over the outcomes of its successive entries.\<close>

fun kvm_cpu_exec_loop :: "qstate \<Rightarrow> int \<Rightarrow> u64 list \<Rightarrow> run_out list \<Rightarrow> (int \<times> qstate) res" where
  "kvm_cpu_exec_loop s c sw_bps [] = Ok (0, s)"
| "kvm_cpu_exec_loop s c sw_bps (out # outs) =
     res_bind (kvm_cpu_exec_round s c sw_bps out) (\<lambda>(ret, s).
       if ret = 0 then kvm_cpu_exec_loop s c sw_bps outs else Ok (ret, s))"

end
