(* ===== verification/Kvm_Run_Inv.thy ===== *)
theory Kvm_Run_Inv
  imports Hcall_Inv Kvm_Run
begin

text \<open>
  The vCPU loop keeps the invariant: entering and leaving the guest, resuming a stopped CPU, the kick
  of the timer, and one whole round with the exit it handles.
\<close>

section \<open>Leaving the guest\<close>

lemma resume_spec:
  assumes inv: "sched_inv s" and c: "c \<in> set (cpus s)" "blocked (infos s c)"
    and "b \<Longrightarrow> io_ok s" and "b \<Longrightarrow> iothread_locked s" and "b \<Longrightarrow> current_cpu s = c"
  shows "res_spec b (\<lambda>t. sched_inv t \<and> kept s t \<and> \<not> blocked (infos t c) \<and> cpu_of t = cpu_of (blocker_resume_task s c) \<and> pmem t = pmem s)
    (resume_task s c)"
proof -
  let ?u = "blocker_resume_task s c"
  have c0: "c \<noteq> 0"
    using inv c(2) by (auto simp: sched_inv_def glob_def)
  have st: "cpu_state (sched s) c = qcsched_cpu_activated"
    using inv c c0 by (simp add: sched_inv_def win_def quiet_def)
  let ?f = "(infos s)(c := (infos s c)\<lparr>blocked := False, waking_up := False, kicked := False\<rparr>)"
  have u: "?u = upd_cpu c (\<lambda>p. p\<lparr>qcsched_force_wakeup := False\<rparr>) (s\<lparr>infos := ?f\<rparr>)"
    by (simp add: blocker_resume_task_def upd_info_def upd_cpu_def)
  have "sched_inv (s\<lparr>infos := ?f\<rparr>)"
    by (rule sched_inv_infos [OF inv]) (use inv in \<open>auto simp: sched_inv_def glob_def win_def quiet_def split: if_splits\<close>)
  then have i: "sched_inv ?u"
    unfolding u by (rule sched_inv_lock)
  have "worker ?u c"
    using c st c0 by (simp add: worker_def u upd_cpu_def)
  from expand_inv [OF i this]
  have ex: "res_spec b (\<lambda>t. sched_inv t \<and> env ?u t \<and> infos t = infos ?u) (qcsched_window_expand_window ?u c)"
    using assms(4) by (simp add: io_ok_def u upd_cpu_def)
  have "kept s t \<and> \<not> blocked (infos t c) \<and> cpu_of t = cpu_of ?u \<and> pmem t = pmem s" if "env ?u t" "infos t = infos ?u" for t
    using envD [OF that(1)] that(2) by (simp add: kept_def u upd_cpu_def)
  then have "res_spec b (\<lambda>t. sched_inv t \<and> kept s t \<and> \<not> blocked (infos t c) \<and> cpu_of t = cpu_of ?u \<and> pmem t = pmem s)
      (qcsched_window_expand_window ?u c)"
    by (intro res_spec_mono [OF ex]) blast
  then show ?thesis
    unfolding resume_task_def Let_def task_kidnapped_def blocker_task_kidnapped_def
    by (intro res_spec_bind_c_assert) (use assms(3,5,6) in auto)
qed

text \<open>
  After the guest: the registers are read and a CPU that is to wake up is resumed. The registers, the
  memory and the tables a handler looks at do not depend on whether it was.
\<close>

lemma post_run_spec:
  assumes inv: "sched_inv s" and c: "c \<in> set (cpus s)"
    and "b \<Longrightarrow> io_ok s" and "b \<Longrightarrow> \<not> iothread_locked s" and "b \<Longrightarrow> current_cpu s = c" and "b \<Longrightarrow> ext_get_regs (ext s) c = 0"
  shows "res_spec b (\<lambda>t. sched_inv t \<and> kept s t \<and> \<not> iothread_locked t \<and> (waking_up (infos s c) \<longrightarrow> \<not> blocked (infos t c)) \<and>
      (\<not> waking_up (infos s c) \<longrightarrow> t = upd_cpu c (\<lambda>p. p\<lparr>regs := vcpu_regs s c\<rparr>) s))
    (qcsched_post_run s c)"
proof (cases "ext_get_regs (ext s) c = 0 \<and> \<not> iothread_locked s")
  case False
  then show ?thesis
    using assms(4,6) by (auto simp: qcsched_post_run_def kvm_read_registers_def qemu_mutex_lock_iothread_def Let_def g_assert_def c_assert_def upd_cpu_def)
next
  case True
  let ?u = "(upd_cpu c (\<lambda>p. p\<lparr>regs := vcpu_regs s c\<rparr>) s)\<lparr>iothread_locked := True\<rparr>"
  have u: "sched_inv ?u" "infos ?u = infos s" "cpus ?u = cpus s" "io_ok ?u = io_ok s" "current_cpu ?u = current_cpu s" "iothread_locked ?u"
    by (intro sched_inv_lock inv) (simp_all add: upd_cpu_def io_ok_def)
  have eq: "qcsched_post_run s c = res_bind (if want_to_wake_up ?u c then resume_task ?u c else Ok ?u) qemu_mutex_unlock_iothread"
    using True by (simp add: qcsched_post_run_def kvm_read_registers_def qemu_mutex_lock_iothread_def Let_def g_assert_def upd_cpu_def)
  have wk: "waking_up (infos s c) \<Longrightarrow> blocked (infos s c)"
    using inv by (simp add: sched_inv_def glob_def)
  have ul: "qemu_mutex_unlock_iothread t = Ok (t\<lparr>iothread_locked := False\<rparr>)" if "iothread_locked t" for t
    using that by (simp add: qemu_mutex_unlock_iothread_def g_assert_def)
  show ?thesis
  proof (cases "waking_up (infos s c)")
    case False
    then have "qcsched_post_run s c = Ok (?u\<lparr>iothread_locked := False\<rparr>)"
      by (simp add: eq want_to_wake_up_def blocker_want_to_wake_up_def u ul)
    moreover have "sched_inv (?u\<lparr>iothread_locked := False\<rparr>)"
      by (intro sched_inv_lock inv)
    ultimately show ?thesis
      using False True by (simp add: kept_def upd_cpu_def)
  next
    case w: True
    have "res_spec b (\<lambda>t. sched_inv t \<and> kept ?u t \<and> \<not> blocked (infos t c)) (resume_task ?u c)"
      by (rule res_spec_mono [OF resume_spec [OF u(1)]]) (use c w wk u assms(3,5) in auto)
    then show ?thesis
      unfolding eq using w wk True
      by (auto simp: want_to_wake_up_def blocker_want_to_wake_up_def u kept_def upd_cpu_def ul
          intro!: sched_inv_lock elim!: res_spec_bind)
  qed
qed

section \<open>The kick\<close>

lemma handle_kick_spec:
  assumes inv: "sched_inv s" and "b \<Longrightarrow> \<not> iothread_locked s" and "b \<Longrightarrow> current_cpu s = c"
  shows "res_spec b (\<lambda>t. sched_inv t \<and> kept s t \<and> \<not> iothread_locked t \<and> blocked (infos t c) = blocked (infos s c) \<and>
      waking_up (infos t c) = (waking_up (infos s c) \<or> kicked (infos s c) \<and> blocked (infos s c)))
    (qcsched_handle_kick s c)"
proof (cases "\<not> iothread_locked s \<and> c = current_cpu s")
  case False
  then show ?thesis
    using assms(2,3) by (auto simp: qcsched_handle_kick_def qcsched_handle_kick_locked_def qemu_mutex_lock_iothread_def g_assert_def
        c_assert_def upd_cpu_def)
next
  case True
  let ?g = "\<lambda>p. p\<lparr>timer_cookie := timer_cookie p + 1, qcsched_force_wakeup := (if kicked (infos s c) \<and> blocked (infos s c) then True
      else qcsched_force_wakeup p)\<rparr>"
  let ?f = "(infos s)(c := (infos s c)\<lparr>kicked := False,
      waking_up := (waking_up (infos s c) \<or> kicked (infos s c) \<and> blocked (infos s c))\<rparr>)"
  have "sched_inv (s\<lparr>infos := ?f\<rparr>)"
    by (rule sched_inv_infos [OF inv]) (use inv in \<open>auto simp: sched_inv_def glob_def win_def quiet_def split: if_splits\<close>)
  then have t: "sched_inv (upd_cpu c ?g (s\<lparr>infos := ?f\<rparr>))"
    by (rule sched_inv_lock)
  have "qcsched_handle_kick s c = Ok (upd_cpu c ?g (s\<lparr>infos := ?f\<rparr>))"
    using True by (auto simp: qcsched_handle_kick_def qcsched_handle_kick_locked_def qemu_mutex_lock_iothread_def
        qemu_mutex_unlock_iothread_def g_assert_def Let_def task_kidnapped_def blocker_task_kidnapped_def
        wake_cpu_up_def blocker_wake_cpu_up_def upd_cpu_def upd_info_def intro!: qstate.equality ext)
  then show ?thesis
    using t True by (simp add: kept_def upd_cpu_def)
qed

section \<open>Entering the guest\<close>

text \<open>From \<open>s\<close> to \<open>t\<close> the guest ran on CPU \<open>c\<close> with outcome \<open>out\<close>.\<close>

definition entered :: "qstate \<Rightarrow> int \<Rightarrow> run_out \<Rightarrow> qstate \<Rightarrow> bool" where
  "entered s c out t \<longleftrightarrow> sched t = sched s \<and> vmi_info t = vmi_info s \<and> infos t = infos s \<and> cpus t = cpus s \<and>
     hw_breakpoint t = hw_breakpoint s \<and> ext t = ext s \<and> phys_page t = phys_page s \<and> current_cpu t = current_cpu s \<and>
     iothread_locked t = iothread_locked s \<and> pmem t = guest_pmem out \<and> regs (cpu_of t c) = guest_regs out \<and>
     singlestep_enabled (cpu_of t c) = singlestep_enabled (cpu_of s c)"

lemma entered_inv: "entered s c out t \<Longrightarrow> sched_inv s \<Longrightarrow> sched_inv t"
  by (rule sched_inv_cong) (simp_all add: entered_def)

lemma entered_vmi:
  assumes "entered s c out t"
  shows "qcsched_vmi_task t d = qcsched_vmi_task (s\<lparr>pmem := guest_pmem out\<rparr>) d"
    "qcsched_vmi_preempt_count t d = qcsched_vmi_preempt_count (s\<lparr>pmem := guest_pmem out\<rparr>) d"
    "hw_addrs t d = hw_addrs s d" "own t d i = own s d i" "installed_on t d = installed_on s d"
  using assms by (auto simp: entered_def own_def installed_on_def intro!: vmi_read_cong hw_cong)

text \<open>
  What the guest and the processor owe to the host: a hypercall is well-formed, and a debug exception is
  raised at an armed address only.
\<close>

definition guest_ok :: "qstate \<Rightarrow> int \<Rightarrow> u64 list \<Rightarrow> run_out \<Rightarrow> bool" where
  "guest_ok s c sw_bps out \<longleftrightarrow>
     (case exit_reason out of
        Exit_hcall args \<Rightarrow> hcall_ok s c args
      | Exit_debug a \<Rightarrow> kvm_handle_debug s c sw_bps a = EXCP_DEBUG \<longrightarrow> rip (guest_regs out) \<in> hw_addrs s c
      | Exit_other r \<Rightarrow> r = EXCP_DEBUG \<longrightarrow> rip (guest_regs out) \<in> hw_addrs s c)"

definition host_safe :: "qstate \<Rightarrow> int \<Rightarrow> run_out \<Rightarrow> bool" where
  "host_safe s c out \<longleftrightarrow> io_ok s \<and> \<not> iothread_locked s \<and> current_cpu s = c \<and>
     ext_get_regs (ext s) c = 0 \<and> ext_set_regs (ext s) c = 0 \<and>
     (case exit_reason out of
        Exit_hcall args \<Rightarrow> hcall_safe (s\<lparr>pmem := guest_pmem out\<rparr>) c args
      | _ \<Rightarrow> host_ok (s\<lparr>pmem := guest_pmem out\<rparr>) c \<and>
             0 \<le> hits s c \<and> hits s c + 2 < WATCHDOG_BREAKPOINT_COUNT_KILL_QEMU)"

lemma trap_armed:
  assumes "sched_inv s" and "c \<in> set (cpus s)" and "RIP s c \<in> hw_addrs s c"
  shows "trap s c" and "c \<noteq> 0"
proof -
  have co: "core s c" using assms(1,2) by (simp add: sched_inv_def win_def)
  then show "c \<noteq> 0" using assms(3) by (auto simp: core_def)
  have "RIP s c \<in> insert (hook_addr (vmi_info s)) ((\<lambda>i. e_addr (entry s i)) ` installed_on s c)"
    using co assms(3) unfolding core_def by blast
  then show "trap s c" using assms(3) by (auto simp: trap_def)
qed

lemma handle_exit_spec:
  assumes inv: "sched_inv s" and c: "c \<in> set (cpus s)" "\<not> blocked (infos s c)" and en: "entered s c out t"
    and g: "guest_ok s c sw_bps out" and "b \<Longrightarrow> host_safe s c out"
  shows "res_spec b (\<lambda>(ret, u). sched_inv u \<and> kept t u) (kvm_handle_exit t c sw_bps (exit_reason out))"
proof -
  note v = entered_vmi [OF en]
  have i: "sched_inv t" by (rule entered_inv [OF en inv])
  have f: "cpus t = cpus s" "infos t = infos s" "ext t = ext s" "current_cpu t = current_cpu s" "sched t = sched s" "vmi_info t = vmi_info s"
      "phys_page t = phys_page s" "iothread_locked t = iothread_locked s" "RIP t c = rip (guest_regs out)"
    using en by (simp_all add: entered_def)
  have hs: "hcall_ok t c args = hcall_ok s c args" "hcall_safe t c args = hcall_safe (s\<lparr>pmem := guest_pmem out\<rparr>) c args"
    "host_ok t c = host_ok (s\<lparr>pmem := guest_pmem out\<rparr>) c" "kvm_handle_debug t c sw_bps a = kvm_handle_debug s c sw_bps a" for args a
    using en by (simp_all add: hcall_ok_def hcall_safe_def installable_def hint_ok_def host_ok_def kssb_ok_def io_ok_def f v
        kvm_handle_debug_def entered_def)
  have bp: "res_spec b (\<lambda>(ret, u). sched_inv u \<and> kept t u) (qcsched_handle_breakpoint t c)"
    if "rip (guest_regs out) \<in> hw_addrs s c" and "\<And>args. exit_reason out \<noteq> Exit_hcall args"
  proof -
    have tr: "trap t c" "c \<noteq> 0" using trap_armed [OF i] c(1) that(1) by (simp_all add: f v)
    have "b \<Longrightarrow> host_ok t c \<and> \<not> iothread_locked t \<and> 0 \<le> hits t c \<and> hits t c + 2 < WATCHDOG_BREAKPOINT_COUNT_KILL_QEMU"
      using assms(6) that(2) by (auto simp: host_safe_def hs f split: kvm_exit.splits)
    then show ?thesis
      using handle_breakpoint_spec [OF i _ tr(2,1), of b] c
      by (cases "iothread_locked t") (auto simp: f kept_def qcsched_handle_breakpoint_def qemu_mutex_lock_iothread_def g_assert_def elim!: res_spec_mono)
  qed
  show ?thesis
  proof (cases "exit_reason out")
    case (Exit_hcall args)
    then have "res_spec b (\<lambda>u. sched_inv u \<and> \<not> iothread_locked u \<and> kept t u) (qcsched_handle_hcall t c args)"
      using g c assms(6) by (intro handle_hcall_spec [OF i]) (auto simp: guest_ok_def host_safe_def hs f)
    then show ?thesis
      using Exit_hcall by (auto simp: kvm_handle_exit_def elim!: res_spec_bind)
  next
    case (Exit_debug a)
    have l: "b \<Longrightarrow> \<not> iothread_locked t" using assms(6) by (simp add: host_safe_def f)
    show ?thesis
    proof (cases "iothread_locked t")
      case True
      then show ?thesis
        using l Exit_debug by (auto simp: kvm_handle_exit_def qemu_mutex_lock_iothread_def g_assert_def)
    next
      case False
      then have eq: "t\<lparr>iothread_locked := False\<rparr> = t" by simp
      show ?thesis
        using Exit_debug g i bp False
        by (auto simp: kvm_handle_exit_def qemu_mutex_lock_iothread_def qemu_mutex_unlock_iothread_def g_assert_def
            guest_ok_def hs Let_def eq)
    qed
  next
    case (Exit_other r)
    then show ?thesis
      using g bp i by (auto simp: kvm_handle_exit_def guest_ok_def)
  qed
qed

section \<open>One round\<close>

lemma pre_run_spec:
  assumes "b \<Longrightarrow> \<not> iothread_locked s" and "b \<Longrightarrow> ext_set_regs (ext s) c = 0"
  shows "res_spec b (\<lambda>(go, t). go = (\<not> blocked (infos s c)) \<and> \<not> iothread_locked s \<and>
      (\<exists>v d. t = upd_cpu c (\<lambda>p. p\<lparr>qcsched_dirty := d\<rparr>) (s\<lparr>vcpu_regs := v\<rparr>)))
    (qcsched_pre_run s c)"
proof (cases "qcsched_dirty (cpu_of s c)")
  case True
  then show ?thesis
    using assms
    by (auto simp: qcsched_pre_run_def kvm_write_registers_def g_assert_def c_assert_def Let_def task_kidnapped_def
        blocker_task_kidnapped_def upd_cpu_def)
next
  case False
  have "\<exists>v d. s = upd_cpu c (\<lambda>p. p\<lparr>qcsched_dirty := d\<rparr>) (s\<lparr>vcpu_regs := v\<rparr>)"
    by (rule exI [of _ "vcpu_regs s"], rule exI [of _ "qcsched_dirty (cpu_of s c)"]) (simp add: upd_cpu_def)
  then show ?thesis
    using assms False
    by (auto simp: qcsched_pre_run_def g_assert_def task_kidnapped_def blocker_task_kidnapped_def simp del: ex_simps)
qed

text \<open>Rounds that do not reach the guest: the CPU is stopped, or a signal is pending.\<close>

lemma idle_round_spec:
  assumes inv: "sched_inv s" and c: "c \<in> set (cpus s)" and out: "blocked (infos s c) \<or> immediate_exit (cpu_of s c)"
    and "b \<Longrightarrow> io_ok s" and "b \<Longrightarrow> \<not> iothread_locked s" and "b \<Longrightarrow> current_cpu s = c"
    and "b \<Longrightarrow> ext_get_regs (ext s) c = 0" and "b \<Longrightarrow> ext_set_regs (ext s) c = 0"
  shows "res_spec b (\<lambda>(ret, t). ret = EXCP_INTERRUPT \<and> sched_inv t \<and> kept s t \<and> \<not> iothread_locked t \<and>
      (waking_up (infos s c) \<longrightarrow> \<not> blocked (infos t c)) \<and>
      (\<not> waking_up (infos s c) \<longrightarrow> blocked (infos t c) = blocked (infos s c) \<and>
         waking_up (infos t c) = (kicked (infos s c) \<and> blocked (infos s c))))
    (kvm_cpu_exec_round s c sw_bps run)" (is "res_spec b ?Q _")
  unfolding kvm_cpu_exec_round_def
proof (rule res_spec_bind [OF pre_run_spec])
  fix x
  assume "case x of (go, t) \<Rightarrow> go = (\<not> blocked (infos s c)) \<and> \<not> iothread_locked s \<and>
      (\<exists>v d. t = upd_cpu c (\<lambda>p. p\<lparr>qcsched_dirty := d\<rparr>) (s\<lparr>vcpu_regs := v\<rparr>))"
  then obtain v d where x: "x = (\<not> blocked (infos s c), upd_cpu c (\<lambda>p. p\<lparr>qcsched_dirty := d\<rparr>) (s\<lparr>vcpu_regs := v\<rparr>))"
    and l: "\<not> iothread_locked s" by auto
  define u where "u = (if blocked (infos s c) then kvm_cpu_kick (snd x) c else snd x)"
  have u: "sched_inv u" "infos u = infos s" "cpus u = cpus s" "kept s u" "immediate_exit (cpu_of u c)"
    using out unfolding u_def x kvm_cpu_kick_def
    by (auto intro!: sched_inv_lock sched_inv_cong [OF inv] simp: upd_cpu_def kept_def)
  have run: "kvm_run u c run = (- EINTR, u)" using u(5) by (simp add: kvm_run_def)
  have "res_spec b (\<lambda>t. sched_inv t \<and> kept u t \<and> \<not> iothread_locked t \<and> (waking_up (infos u c) \<longrightarrow> \<not> blocked (infos t c)) \<and>
      (\<not> waking_up (infos u c) \<longrightarrow> t = upd_cpu c (\<lambda>p. p\<lparr>regs := vcpu_regs u c\<rparr>) u)) (qcsched_post_run u c)"
    by (rule post_run_spec) (use u c assms(4-8) in \<open>auto simp: kept_def io_ok_def\<close>)
  then have "res_spec b ?Q (res_bind (qcsched_post_run u c) (\<lambda>s. res_bind (qcsched_handle_kick (kvm_eat_signals s c) c)
      (\<lambda>s. Ok (EXCP_INTERRUPT, s))))"
  proof (rule res_spec_bind)
    fix t
    assume t: "sched_inv t \<and> kept u t \<and> \<not> iothread_locked t \<and> (waking_up (infos u c) \<longrightarrow> \<not> blocked (infos t c)) \<and>
      (\<not> waking_up (infos u c) \<longrightarrow> t = upd_cpu c (\<lambda>p. p\<lparr>regs := vcpu_regs u c\<rparr>) u)"
    let ?e = "kvm_eat_signals t c"
    have e: "sched_inv ?e" "kept t ?e" "infos ?e = infos t" "\<not> iothread_locked ?e"
      unfolding kvm_eat_signals_def using t by (auto intro!: sched_inv_lock) (simp_all add: upd_cpu_def)
    have k: "kept s t" using kept_trans u(4) t by blast
    have cc: "b \<Longrightarrow> current_cpu ?e = c" using e(2) k assms(6) by (simp add: kept_def)
    have i: "\<not> waking_up (infos s c) \<Longrightarrow> infos t = infos s" using t u(2) by (auto simp: upd_cpu_def)
    show "res_spec b ?Q (res_bind (qcsched_handle_kick ?e c) (\<lambda>s. Ok (EXCP_INTERRUPT, s)))"
      by (rule res_spec_bind [OF handle_kick_spec [OF e(1)]])
        (use e t k cc u(2) i in \<open>auto intro: kept_trans\<close>)
  qed
  then show "res_spec b ?Q (case x of (go, s) \<Rightarrow> let s = if \<not> go then kvm_cpu_kick s c else s; (ret, s) = kvm_run s c run
      in res_bind (qcsched_post_run s c) (\<lambda>s. if ret < 0 then if ret = - EINTR \<or> ret = - EAGAIN
           then res_bind (qcsched_handle_kick (kvm_eat_signals s c) c) (\<lambda>s. Ok (EXCP_INTERRUPT, s)) else Ok (- 1, s)
         else kvm_handle_exit s c sw_bps (exit_reason run)))"
    using run by (simp add: x u_def Let_def EINTR_def split: if_splits)
qed (use assms(5,8) in auto)

lemma running_round_spec:
  assumes inv: "sched_inv s" and c: "c \<in> set (cpus s)" and free: "\<not> blocked (infos s c)" "\<not> immediate_exit (cpu_of s c)"
    and g: "guest_ok s c sw_bps run" and "b \<Longrightarrow> host_safe s c run"
  shows "res_spec b (\<lambda>(ret, t). sched_inv t \<and> kept s t) (kvm_cpu_exec_round s c sw_bps run)" (is "res_spec b ?Q _")
  unfolding kvm_cpu_exec_round_def
proof (rule res_spec_bind [OF pre_run_spec])
  have safe: "b \<Longrightarrow> io_ok s \<and> \<not> iothread_locked s \<and> current_cpu s = c \<and> ext_get_regs (ext s) c = 0 \<and> ext_set_regs (ext s) c = 0"
    using assms(6) by (simp add: host_safe_def)
  show "b \<Longrightarrow> \<not> iothread_locked s" "b \<Longrightarrow> ext_set_regs (ext s) c = 0" using safe by auto
  fix x
  assume "case x of (go, t) \<Rightarrow> go = (\<not> blocked (infos s c)) \<and> \<not> iothread_locked s \<and>
      (\<exists>v d. t = upd_cpu c (\<lambda>p. p\<lparr>qcsched_dirty := d\<rparr>) (s\<lparr>vcpu_regs := v\<rparr>))"
  then obtain v d where x: "x = (True, upd_cpu c (\<lambda>p. p\<lparr>qcsched_dirty := d\<rparr>) (s\<lparr>vcpu_regs := v\<rparr>))"
    using free(1) by auto
  define u where "u = (snd x)\<lparr>vcpu_regs := (vcpu_regs (snd x))(c := guest_regs run), pmem := guest_pmem run\<rparr>"
  have run: "kvm_run (snd x) c run = (run_ret run, u)"
    using free(2) by (simp add: kvm_run_def x u_def upd_cpu_def)
  have u: "sched_inv u" "infos u = infos s" "cpus u = cpus s" "io_ok u = io_ok s" "iothread_locked u = iothread_locked s"
      "current_cpu u = current_cpu s" "ext u = ext s"
    by (auto intro!: sched_inv_cong [OF inv] simp: u_def x upd_cpu_def io_ok_def)
  have "res_spec b (\<lambda>t. sched_inv t \<and> kept u t \<and> \<not> iothread_locked t \<and> (waking_up (infos u c) \<longrightarrow> \<not> blocked (infos t c)) \<and>
      (\<not> waking_up (infos u c) \<longrightarrow> t = upd_cpu c (\<lambda>p. p\<lparr>regs := vcpu_regs u c\<rparr>) u)) (qcsched_post_run u c)"
    by (rule post_run_spec [OF u(1)]) (use c safe in \<open>simp_all add: u\<close>)
  then have "res_spec b ?Q (res_bind (qcsched_post_run u c) (\<lambda>s. if run_ret run < 0 then if run_ret run = - EINTR \<or> run_ret run = - EAGAIN
           then res_bind (qcsched_handle_kick (kvm_eat_signals s c) c) (\<lambda>s. Ok (EXCP_INTERRUPT, s)) else Ok (- 1, s)
         else kvm_handle_exit s c sw_bps (exit_reason run)))"
  proof (rule res_spec_bind)
    fix t
    assume t: "sched_inv t \<and> kept u t \<and> \<not> iothread_locked t \<and> (waking_up (infos u c) \<longrightarrow> \<not> blocked (infos t c)) \<and>
      (\<not> waking_up (infos u c) \<longrightarrow> t = upd_cpu c (\<lambda>p. p\<lparr>regs := vcpu_regs u c\<rparr>) u)"
    have "\<not> waking_up (infos s c)" using inv free(1) by (auto simp: sched_inv_def glob_def)
    then have tu: "t = upd_cpu c (\<lambda>p. p\<lparr>regs := vcpu_regs u c\<rparr>) u" using t u(2) by simp
    have en: "entered s c run t" unfolding tu by (simp add: entered_def u_def x upd_cpu_def)
    then have k: "kept s t" by (simp add: kept_def entered_def)
    have e: "sched_inv (kvm_eat_signals t c)" "kept s (kvm_eat_signals t c)"
      unfolding kvm_eat_signals_def using t k by (auto intro!: sched_inv_lock)
    have kick: "res_spec b ?Q (res_bind (qcsched_handle_kick (kvm_eat_signals t c) c) (\<lambda>s. Ok (EXCP_INTERRUPT, s)))"
      by (rule res_spec_bind [OF handle_kick_spec [OF e(1)]]) (use e(2) safe in \<open>auto simp: kept_def\<close>)
    have "res_spec b ?Q (kvm_handle_exit t c sw_bps (exit_reason run))"
      by (rule res_spec_mono [OF handle_exit_spec [OF inv c free(1) en g assms(6)]]) (auto intro: kept_trans [OF k])
    then show "res_spec b ?Q (if run_ret run < 0 then if run_ret run = - EINTR \<or> run_ret run = - EAGAIN
           then res_bind (qcsched_handle_kick (kvm_eat_signals t c) c) (\<lambda>s. Ok (EXCP_INTERRUPT, s)) else Ok (- 1, t)
         else kvm_handle_exit t c sw_bps (exit_reason run))"
      using kick t k by simp
  qed
  then show "res_spec b ?Q (case x of (go, s) \<Rightarrow> let s = if \<not> go then kvm_cpu_kick s c else s; (ret, s) = kvm_run s c run
      in res_bind (qcsched_post_run s c) (\<lambda>s. if ret < 0 then if ret = - EINTR \<or> ret = - EAGAIN
           then res_bind (qcsched_handle_kick (kvm_eat_signals s c) c) (\<lambda>s. Ok (EXCP_INTERRUPT, s)) else Ok (- 1, s)
         else kvm_handle_exit s c sw_bps (exit_reason run)))"
    using run by (simp add: x Let_def)
qed

lemma round_spec:
  assumes "sched_inv s" and "c \<in> set (cpus s)" and "guest_ok s c sw_bps run" and "b \<Longrightarrow> host_safe s c run"
  shows "res_spec b (\<lambda>(ret, t). sched_inv t \<and> kept s t) (kvm_cpu_exec_round s c sw_bps run)"
proof (cases "blocked (infos s c) \<or> immediate_exit (cpu_of s c)")
  case True
  have "b \<Longrightarrow> io_ok s \<and> \<not> iothread_locked s \<and> current_cpu s = c \<and> ext_get_regs (ext s) c = 0 \<and> ext_set_regs (ext s) c = 0"
    using assms(4) by (simp add: host_safe_def)
  then show ?thesis
    by (intro res_spec_mono [OF idle_round_spec [OF assms(1,2) True]]) auto
next
  case False
  then show ?thesis
    using running_round_spec [OF assms(1,2) _ _ assms(3,4)] by auto
qed

section \<open>Runs of the machine\<close>

text \<open>
  A step of the machine: the thread of some CPU makes a round of its loop, or a signal reaches it. The
  handlers run under the big lock, so rounds do not overlap.
\<close>

inductive machine_step :: "qstate \<Rightarrow> qstate \<Rightarrow> bool" where
  round: "c \<in> set (cpus s) \<Longrightarrow> guest_ok s c sw_bps run \<Longrightarrow>
    kvm_cpu_exec_round (s\<lparr>current_cpu := c\<rparr>) c sw_bps run = Ok (ret, t) \<Longrightarrow> machine_step s t"
| signal: "c \<in> set (cpus s) \<Longrightarrow> machine_step s (kvm_ipi_signal s c v)"

text \<open>A run starts when the guest has reset the scheduler.\<close>

inductive reachable :: "qstate \<Rightarrow> bool" where
  start: "resettable s \<Longrightarrow> qcsched_reset s c = Ok t \<Longrightarrow> reachable t"
| step: "reachable s \<Longrightarrow> machine_step s t \<Longrightarrow> reachable t"

lemma signal_inv:
  assumes "sched_inv s"
  shows "sched_inv (kvm_ipi_signal s c v)"
proof -
  have "sched_inv (upd_info c (\<lambda>x. x\<lparr>kicked := True\<rparr>) s)"
    unfolding upd_info_def
    by (rule sched_inv_infos [OF assms]) (use assms in \<open>auto simp: sched_inv_def glob_def win_def quiet_def split: if_splits\<close>)
  then show ?thesis
    unfolding kvm_ipi_signal_def kvm_cpu_kick_def using assms by (intro sched_inv_lock) auto
qed

lemma machine_step_inv: "machine_step s t \<Longrightarrow> sched_inv s \<Longrightarrow> sched_inv t"
proof (induction rule: machine_step.induct)
  case (round c s sw_bps run ret t)
  let ?s = "s\<lparr>current_cpu := c\<rparr>"
  have "sched_inv ?s" by (rule sched_inv_cong [OF round.prems]) simp_all
  moreover have "guest_ok ?s c sw_bps run"
    using round.hyps(2) by (simp add: guest_ok_def hcall_ok_def installable_def hint_ok_def hw_addrs_def own_def kvm_handle_debug_def
        split: kvm_exit.splits)
  ultimately have "res_spec False (\<lambda>(ret, t). sched_inv t \<and> kept ?s t) (kvm_cpu_exec_round ?s c sw_bps run)"
    using round.hyps(1) by (intro round_spec) auto
  then show ?case using round.hyps(3) by simp
next
  case (signal c s v)
  then show ?case by (simp add: signal_inv)
qed

lemma reachable_inv: "reachable s \<Longrightarrow> sched_inv s"
proof (induction rule: reachable.induct)
  case (start s c t)
  then show ?case using reset_spec [of s False c] by (simp add: fresh_def)
next
  case (step s t)
  then show ?case by (blast intro: machine_step_inv)
qed

end
