(* ===== verification/Scenario.thy ===== *)
theory Scenario
  imports Kvm_Run_Inv
begin

text \<open>
  A concrete moment of a run, used to evaluate the properties of the scheduler: CPUs 1 and 2 are
  activated, the schedule has one scheduling point for each, the hook is armed on both, and CPU 1 has its scheduling point armed and
  has just trapped on it.
\<close>

definition example_entry :: "u64 \<Rightarrow> int \<Rightarrow> int \<Rightarrow> bool \<Rightarrow> qcsched_entry" where
  "example_entry addr order c inst =
     \<lparr>schedpoint = \<lparr>sp_addr = addr, sp_order = order, sp_footprint = footprint_preserved\<rparr>,
      installed = inst, e_task = \<lparr>task_struct = 0\<rparr>, e_cpu = c\<rparr>"

definition example_table :: "u64 list \<Rightarrow> percpu_hw_breakpoint" where
  "example_table as =
     \<lparr>bp = \<lambda>n. \<lparr>bp_addr = (if 0 \<le> n \<and> nat n < length as then as ! nat n else 0), bp_len = 1, bp_type = GDB_BREAKPOINT_HW\<rparr>,
      nb = int (length as)\<rparr>"

definition example_window :: "int \<Rightarrow> qcsched_schedpoint_window" where
  "example_window c =
     (if c = 1 then \<lparr>w_total = 1, w_activated = 1, w_from = 0, w_until = END_OF_SCHEDPOINT_WINDOW, w_cpu = 1,
                     w_left_behind = END_OF_SCHEDPOINT_WINDOW\<rparr>
      else if c = 2 then \<lparr>w_total = 1, w_activated = 0, w_from = 1, w_until = 1, w_cpu = 2,
                          w_left_behind = END_OF_SCHEDPOINT_WINDOW\<rparr>
      else zero_window\<lparr>w_cpu := c\<rparr>)"

definition example_armed :: qstate where
  "example_armed = example_boot\<lparr>
     sched := zero_sched\<lparr>
       entries := (\<lambda>_. zero_entry)(0 := example_entry 0x2000 0 1 True, 1 := example_entry 0x3000 1 2 False),
       schedpoint_window := example_window,
       cpu_state := (\<lambda>_. qcsched_cpu_idle)(1 := qcsched_cpu_activated, 2 := qcsched_cpu_activated),
       total := 2, orig_nr_bps := 2, nr_cpus := 2, activated := True\<rparr>,
     vmi_info := zero_vmi\<lparr>hook_addr := 0x1000\<rparr>,
     hw_breakpoint := (\<lambda>_. example_table [])(1 := example_table [0x1000, 0x2000], 2 := example_table [0x1000]),
     cpu_of := (\<lambda>_. zero_cpu)(1 := zero_cpu\<lparr>regs := zero_regs\<lparr>rip := 0x2000\<rparr>\<rparr>),
     current_cpu := 1\<rparr>"

lemmas armed_defs = example_armed_def boot_defs

lemma armed_entry:
  "entry example_armed i = (if i = 0 then example_entry 0x2000 0 1 True
     else if i = 1 then example_entry 0x3000 1 2 False else zero_entry)"
  by (simp add: armed_defs)

lemma armed_simps [simp]:
  "tot example_armed = 2" "current (sched example_armed) = 0" "cpus example_armed = [0, 1, 2]" "activated (sched example_armed)"
  "window example_armed = example_window" "hook_addr (vmi_info example_armed) = 0x1000"
  "hw_breakpoint example_armed = (\<lambda>_. example_table [])(1 := example_table [0x1000, 0x2000], 2 := example_table [0x1000])"
  "cpu_state (sched example_armed) = (\<lambda>_. qcsched_cpu_idle)(1 := qcsched_cpu_activated, 2 := qcsched_cpu_activated)"
  "\<not> blocked (infos example_armed c)" "\<not> waking_up (infos example_armed c)" "\<not> kicked (infos example_armed c)"
  "lock_count (lock_info (vmi_info example_armed) c) = 0" "\<not> iothread_locked example_armed" "current_cpu example_armed = 1"
  "RIP example_armed 1 = 0x2000" "ext example_armed = ideal_external"
  by (simp_all add: armed_defs)

lemma armed_reads:
  "qcsched_vmi_task example_armed c = Ok \<lparr>task_struct = 0\<rparr>" "qcsched_vmi_preempt_count example_armed c = Ok 0"
proof -
  have "per_cpu_offset (vmi_info example_armed) c = 0" by (simp add: armed_defs)
  then show "qcsched_vmi_task example_armed c = Ok \<lparr>task_struct = 0\<rparr>" "qcsched_vmi_preempt_count example_armed c = Ok 0"
    by (simp_all add: qcsched_vmi_task_def current_task_def qcsched_vmi_preempt_count_def)
qed

lemma armed_own: "own example_armed c i \<longleftrightarrow>
    i = 0 \<and> c = 1 \<or> i = 1 \<and> c = 2 \<or> 1 < i \<and> i < MAX_SCHEDPOINTS \<and> c = 0"
  by (auto simp: own_def armed_entry example_entry_def MAX_SCHEDPOINTS_def)

lemma armed_installed: "installed_on example_armed c = (if c = 1 then {0} else {})"
  by (auto simp: installed_on_def armed_own armed_entry example_entry_def)

lemma example_table_addrs: "bp_addr ` bp (example_table as) ` {0..<nb (example_table as)} = set as"
proof -
  have "bp_addr (bp (example_table as) (int k)) = as ! k" if "k < length as" for k
    using that by (simp add: example_table_def)
  moreover have "{0..<nb (example_table as)} = int ` {0..<length as}"
    by (simp add: example_table_def image_int_atLeastLessThan)
  ultimately have "bp_addr ` bp (example_table as) ` {0..<nb (example_table as)} = (\<lambda>k. as ! k) ` {0..<length as}"
    by (simp add: image_image)
  then show ?thesis
    by (simp add: set_conv_nth lessThan_atLeast0 [symmetric] image_def) blast
qed

lemma armed_hw: "hw_addrs example_armed c = (if c = 1 then {0x1000, 0x2000} else if c = 2 then {0x1000} else {})"
  by (simp add: hw_addrs_def example_table_addrs)

lemma armed_wf: "hw_wf example_armed c"
proof -
  have "inj_on (\<lambda>n. bp_addr (bp (example_table [0x1000, 0x2000]) n)) {0..<2}"
    by (auto simp: inj_on_def example_table_def nth_Cons split: nat.splits)
  moreover have "inj_on (\<lambda>n. bp_addr (bp (example_table [0x1000]) n)) {0..<1}"
    by (auto simp: inj_on_def)
  ultimately show ?thesis
    by (simp add: hw_wf_def) (simp add: example_table_def)
qed

lemma armed_inv: "sched_inv example_armed"
proof -
  have "glob example_armed"
    by (auto simp: glob_def armed_entry example_entry_def MAX_SCHEDPOINTS_def MAX_CPUS_def)
  moreover have "distinct_addrs example_armed"
    by (auto simp: distinct_addrs_def armed_own armed_entry example_entry_def)
  moreover have "core example_armed c" "marks example_armed c" if "c \<in> {0, 1, 2}" for c
    using that armed_wf [of c]
    by (auto simp: core_def marks_def armed_installed armed_hw example_window_def zero_window_def armed_entry example_entry_def
        SCHEDPOINT_WINDOW_SIZE_def QCSCHED_DUMMY_BREAKPOINT_def)
  moreover have "cursor example_armed c" "quiet example_armed c" if "c \<in> {1, 2}" for c
    using that by (auto simp: cursor_def left_ok_def quiet_def armed_own armed_entry example_entry_def example_window_def
        END_OF_SCHEDPOINT_WINDOW_def MAX_SCHEDPOINTS_def)
  ultimately show ?thesis
    by (simp add: sched_inv_def win_def)
qed

end
