(* ===== verification/Window_Properties.thy ===== *)
theory Window_Properties
  imports Scenario
begin

text \<open>
  The window against its abstraction: the set of armed scheduling points and the queue of those that wait
  for a breakpoint. Expanding refines the step of that abstraction, closing empties it, and
  the cleanup loop ends whatever its bound.
\<close>

section \<open>The abstraction\<close>

definition candidates :: "qstate \<Rightarrow> int \<Rightarrow> int \<Rightarrow> int list" where
  "candidates s c n = filter (\<lambda>i. e_cpu (entry s i) = c \<and> e_footprint (entry s i) \<noteq> footprint_missed) [n..tot s - 1]"

definition window_view :: "qstate \<Rightarrow> int \<Rightarrow> int set \<times> int list" where
  "window_view s c = (installed_on s c, candidates s c (w_until (window s c)))"

text \<open>Arming up to \<open>n\<close> of the waiting points while fewer than three are armed; a silent one is passed over.\<close>

fun arm_next :: "(int \<Rightarrow> bool) \<Rightarrow> nat \<Rightarrow> int set \<times> int list \<Rightarrow> int set \<times> int list" where
  "arm_next silent 0 v = v"
| "arm_next silent (Suc n) (A, q) =
     (if card A = 3 then (A, q)
      else case q of [] \<Rightarrow> (A, []) | i # q \<Rightarrow> arm_next silent n (if silent i then A else insert i A, q))"

abbreviation silent_in :: "qstate \<Rightarrow> int \<Rightarrow> bool" where
  "silent_in s i \<equiv> e_addr (entry s i) = QCSCHED_DUMMY_BREAKPOINT"

lemma find_hd_filter: "List.find P xs = (case filter P xs of [] \<Rightarrow> None | x # _ \<Rightarrow> Some x)"
  by (induction xs) auto

lemma filter_upto_tl: "filter P [f..n] = e # r \<Longrightarrow> r = filter P [e + 1..n] \<and> filter P [e..n] = e # r"
proof (induction f n rule: upto.induct)
  case (1 i j)
  then show ?case
    by (cases "i \<le> j"; cases "P i") (auto simp: upto_rec1 [of i j])
qed

lemma lookup_candidates:
  assumes "0 \<le> f" and "glob s"
  shows "lookup_entry_by_order s (Some c) f = (case candidates s c f of [] \<Rightarrow> None | e # _ \<Rightarrow> Some e)"
proof (cases "f = END_OF_SCHEDPOINT_WINDOW")
  case True
  then have "candidates s c f = []"
    using assms(2) by (simp add: candidates_def glob_def END_OF_SCHEDPOINT_WINDOW_def MAX_SCHEDPOINTS_def)
  then show ?thesis by (simp add: True)
next
  case False
  then show ?thesis by (simp add: lookup_entry_by_order_def candidates_def find_hd_filter)
qed

lemma candidates_next:
  assumes "glob s" and "0 \<le> f" and "c \<noteq> 0"
  shows "candidates s c (order_or_end s (lookup_entry_by_order s (Some c) f)) = candidates s c f"
proof (cases "candidates s c f")
  case Nil
  then show ?thesis
    using assms(1) by (simp add: lookup_candidates [OF assms(2,1)] order_or_end_def)
      (simp add: candidates_def glob_def END_OF_SCHEDPOINT_WINDOW_def MAX_SCHEDPOINTS_def)
next
  case (Cons e r)
  then have "lookup_entry_by_order s (Some c) f = Some e"
    by (simp add: lookup_candidates [OF assms(2,1)])
  moreover from this have "e_order (entry s e) = e"
    using lookup_own [OF assms(1) _ assms(2,3)] by simp
  moreover have "candidates s c e = e # r"
    using Cons filter_upto_tl by (fastforce simp: candidates_def)
  ultimately show ?thesis using Cons by (simp add: order_or_end_def)
qed

lemma candidates_cong:
  assumes "skel t = skel s" and "same_footprints s t"
  shows "candidates t c n = candidates s c n"
  using assms(2) by (simp add: candidates_def skelD [OF assms(1)])

section \<open>Expanding refines the abstraction\<close>

lemma activate_entry_exact:
  assumes "core s c" and "own s c e" and "c \<noteq> 0" and "w_activated (window s c) < SCHEDPOINT_WINDOW_SIZE"
    and "qcsched_window_activate_entry s c c e = Ok t"
  shows "installed_on t c = (if silent_in s e then installed_on s c else insert e (installed_on s c))"
    "skel t = skel s" "same_footprints s t"
proof -
  obtain err s1 where ins: "kvm_insert_breakpoint_cpu s c (e_addr (entry s e)) 1 GDB_BREAKPOINT_HW = (err, s1)"
    by fastforce
  note ci = core_install [OF assms(1-3) _ assms(4) _ ins]
  have "installed_on t c = (if silent_in s e then installed_on s c else insert e (installed_on s c)) \<and>
    skel t = skel s \<and> same_footprints s t"
  proof (cases "silent_in s e \<or> installed (entry s e)")
    case True
    moreover from this have "t = s"
      using assms(4,5) by (auto simp: qcsched_window_activate_entry_def schedpoint_window_full_def split: if_splits)
    ultimately show ?thesis
      using assms(2) by (auto simp: installed_on_def)
  next
    case False
    then have "t = upd_window c (\<lambda>x. x\<lparr>w_activated := w_activated x + 1\<rparr>) (upd_entry e (\<lambda>x. x\<lparr>installed := True\<rparr>) s1)"
      using assms(4,5) ins
      by (auto simp: qcsched_window_activate_entry_def schedpoint_window_full_def Let_def c_assert_def split: if_splits)
    then show ?thesis
      using ci(3,4) only_skel [OF ci(1)] False by simp
  qed
  then show "installed_on t c = (if silent_in s e then installed_on s c else insert e (installed_on s c))"
    "skel t = skel s" "same_footprints s t"
    by auto
qed

lemma expand_1_view:
  assumes "glob s" and "win s c" and "c \<noteq> 0" and nf: "\<not> schedpoint_window_full (window s c)"
    and ok: "qcsched_window_expand_window_1 s c c = Ok t"
  shows "window_view t c = arm_next (silent_in s) 1 (window_view s c)"
proof -
  have w: "core s c" "cursor s c" using assms(2,3) by (auto simp: win_def)
  have u0: "0 \<le> w_until (window s c)"
    using w(2) cursor_from_nonneg [OF w(2)] by (auto simp: cursor_def)
  have lt: "w_activated (window s c) < SCHEDPOINT_WINDOW_SIZE" "card (installed_on s c) \<noteq> 3"
    using nf w(1) by (auto simp: core_def schedpoint_window_full_def SCHEDPOINT_WINDOW_SIZE_def)
  show ?thesis
  proof (cases "candidates s c (w_until (window s c))")
    case Nil
    then have "t = s"
      using ok by (simp add: qcsched_window_expand_window_1_def lookup_candidates [OF u0 assms(1)])
    then show ?thesis using Nil lt(2) by (simp add: window_view_def)
  next
    case (Cons e r)
    then have look: "lookup_entry_by_order s (Some c) (w_until (window s c)) = Some e"
      by (simp add: lookup_candidates [OF u0 assms(1)])
    note e = lookup_own [OF assms(1) look u0 assms(3)]
    define s1 where "s1 = (if schedpoint_window_empty (window s c)
      then upd_window c (\<lambda>x. x\<lparr>w_from := e_order (entry s e)\<rparr>) s else s)"
    obtain u where u: "qcsched_window_activate_entry s1 c c e = Ok u"
      and t: "t = upd_window c (\<lambda>x. x\<lparr>w_until := order_or_end u (lookup_entry_by_order u (Some c) (e_order (entry u e) + 1))\<rparr>) u"
      using ok by (auto simp: qcsched_window_expand_window_1_def look s1_def Let_def)
    have s1: "core s1 c" "own s1 c e" "w_activated (window s1 c) < SCHEDPOINT_WINDOW_SIZE" "skel s1 = skel s"
      "installed_on s1 c = installed_on s c" "entry s1 = entry s"
      using w(1) e(1) lt(1) assms(3) by (auto simp: s1_def core_upd_window)
    note x = activate_entry_exact [OF s1(1,2) assms(3) s1(3) u]
    have sk: "skel u = skel s" using x(2) s1(4) by simp
    have cand: "candidates u c n = candidates s c n" for n
      by (rule candidates_cong [OF sk]) (use x(3) s1(6) in simp)
    have "candidates u c (order_or_end u (lookup_entry_by_order u (Some c) (e + 1))) = r"
      using candidates_next [of u "e + 1" c] filter_upto_tl e(5) Cons assms(1,3)
      by (simp add: cand glob_skel [OF sk]) (force simp: candidates_def)
    moreover have "e_order (entry u e) = e" using e(4) by (simp add: skelD [OF sk])
    ultimately show ?thesis
      using x(1) s1(5,6) Cons lt(2) by (simp add: window_view_def t) (simp add: candidates_def)
  qed
qed

lemma arm_next_Suc: "arm_next silent (Suc n) v = (if card (fst v) = 3 then v else arm_next silent n (arm_next silent 1 v))"
proof -
  have "arm_next silent n (A, []) = (A, [])" for A :: "int set"
    by (cases n) auto
  then show ?thesis
    by (cases v) (auto split: list.splits)
qed

lemma expand_n_view:
  assumes "glob s" and "distinct_addrs s" and "win s c" and "c \<noteq> 0"
    and "cpu_state (sched s) c \<notin> {qcsched_cpu_idle, qcsched_cpu_ready}"
    and "qcsched_window_expand_window_n s c n = Ok t"
  shows "window_view t c = arm_next (silent_in s) n (window_view s c)"
  using assms
proof (induction n arbitrary: s)
  case 0
  then show ?case by simp
next
  case (Suc n)
  have full: "schedpoint_window_full (window s c) \<longleftrightarrow> card (installed_on s c) = 3"
    using Suc.prems(3) by (simp add: win_def core_def schedpoint_window_full_def SCHEDPOINT_WINDOW_SIZE_def)
  show ?case
  proof (cases "schedpoint_window_full (window s c)")
    case True
    then show ?thesis
      using Suc.prems(6) full by (simp add: window_view_def)
  next
    case False
    then obtain u where u: "qcsched_window_expand_window_1 s c c = Ok u" "qcsched_window_expand_window_n u c n = Ok t"
      using Suc.prems(6) by auto
    then have x: "only c s u \<and> win u c \<and> same_footprints s u"
      using expand_1_spec [OF Suc.prems(1-5) False, of False] by simp
    then have sk: "skel u = skel s" by (auto dest: only_skel)
    have "window_view t c = arm_next (silent_in u) n (window_view u c)"
      by (rule Suc.IH [OF _ _ _ _ _ u(2)])
        (use x Suc.prems in \<open>simp_all add: glob_skel [OF sk] distinct_addrs_skel [OF sk] skelD [OF sk]\<close>)
    also have "silent_in u = silent_in s" by (simp add: skelD [OF sk])
    finally show ?thesis
      using full False expand_1_view [OF Suc.prems(1,3,4) False u(1)]
      by (simp add: arm_next_Suc [of _ n] window_view_def del: One_nat_def arm_next.simps(2))
  qed
qed

text \<open>
  C3: Expanding the window of a CPU in the schedule does not end the process, keeps the window consistent with the breakpoint table and refines the abstract
  window: of the points that wait, in order, it arms those that carry an address, up to three per call and three in all.
\<close>

theorem expand_refines_arm_next:
  assumes "sched_inv s" and "c \<in> set (cpus s)" and "c \<noteq> 0" and "io_ok s"
    and "cpu_state (sched s) c \<notin> {qcsched_cpu_idle, qcsched_cpu_ready}"
  shows "\<exists>t. qcsched_window_expand_window s c = Ok t \<and> win t c \<and>
    window_view t c = arm_next (silent_in s) 3 (window_view s c)"
proof -
  have i: "glob s" "distinct_addrs s" "win s c" using assms(1,2) by (auto simp: sched_inv_def)
  obtain t where t: "qcsched_window_expand_window s c = Ok t" "win t c"
    using res_spec_total [OF expand_window_spec [OF i assms(3,5), of True]] assms(4) by auto
  then have "window_view t c = arm_next (silent_in s) 3 (window_view s c)"
    using expand_n_view [OF i assms(3,5)] by (simp add: qcsched_window_expand_window_def SCHEDPOINT_WINDOW_SIZE_def)
  with t show ?thesis by blast
qed

theorem expand_refines_arm_next_witness:
  "\<exists>t. qcsched_window_expand_window example_armed 2 = Ok t \<and> window_view t 2 = ({1}, [])"
proof -
  have "candidates example_armed 2 1 = [1]"
    by (simp add: candidates_def armed_entry example_entry_def upto_rec1)
  then have "arm_next (silent_in example_armed) 3 (window_view example_armed 2) = ({1}, [])"
    by (simp add: window_view_def armed_installed example_window_def numeral_3_eq_3 armed_entry example_entry_def
        QCSCHED_DUMMY_BREAKPOINT_def)
  then show ?thesis
    using expand_refines_arm_next [OF armed_inv, of 2] by (auto simp: io_ok_def ideal_external_def)
qed

section \<open>Closing\<close>

text \<open>
  C15: Closing the window of a CPU leaves no scheduling point armed and at most the hook in its breakpoint table, and settles
  every footprint still open: a silent point counts as hit, an armed one as missed, any other as not addressed.
\<close>

theorem close_window_settles:
  assumes "sched_inv s" and "c \<in> set (cpus s)" and "io_ok s" and "current_cpu s = c"
  shows "\<exists>t. qcsched_window_close_window s c = Ok t \<and> installed_on t c = {} \<and> hw_addrs t c \<subseteq> {hook_addr (vmi_info s)} \<and>
    (\<forall>i. 0 \<le> i \<and> i < tot s \<longrightarrow> e_footprint (entry t i) =
      (if e_cpu (entry s i) \<noteq> c \<or> e_footprint (entry s i) \<noteq> footprint_preserved then e_footprint (entry s i)
       else if silent_in s i then footprint_hit
       else if installed (entry s i) then footprint_missed else footprint_not_addressed))"
proof -
  have i: "glob s" "core s c" "marks s c" using assms(1,2) by (auto simp: sched_inv_def win_def)
  obtain t where t: "qcsched_window_close_window s c = Ok t" "closed_by c s t"
    using res_spec_total [OF close_window_spec [OF i, of True]] assms(3,4) by auto
  have sk: "skel t = skel s" using t(2) by (auto simp: closed_by_def dest: only_skel)
  have "hw_addrs t c \<subseteq> {hook_addr (vmi_info s)}"
    using t(2) skelD(10) [OF sk] by (auto simp: closed_by_def core_def)
  then show ?thesis
    using t by (intro exI [of _ t]) (simp add: closed_by_def close_fp_def)
qed

theorem close_window_settles_witness:
  "\<exists>t. qcsched_window_close_window example_armed 1 = Ok t \<and> e_footprint (entry t 0) = footprint_missed \<and>
    e_footprint (entry t 1) = footprint_preserved"
proof -
  have "io_ok example_armed" by (simp add: io_ok_def ideal_external_def)
  from close_window_settles [OF armed_inv _ this, of 1] obtain t where t: "qcsched_window_close_window example_armed 1 = Ok t"
    "\<forall>i. 0 \<le> i \<and> i < 2 \<longrightarrow> e_footprint (entry t i) =
      (if e_cpu (entry example_armed i) \<noteq> 1 \<or> e_footprint (entry example_armed i) \<noteq> footprint_preserved then e_footprint (entry example_armed i)
       else if silent_in example_armed i then footprint_hit
       else if installed (entry example_armed i) then footprint_missed else footprint_not_addressed)"
    by auto
  then show ?thesis
    using t(2) [rule_format, of 0] t(2) [rule_format, of 1]
    by (intro exI [of _ t]) (simp add: armed_entry example_entry_def QCSCHED_DUMMY_BREAKPOINT_def)
qed

section \<open>The cleanup loop\<close>

lemma cleanup_fuel:
  "cleanup_loop n s c i = Ok t \<Longrightarrow> n \<le> m \<Longrightarrow> cleanup_loop m s c i = Ok t"
proof (induction n arbitrary: s i m)
  case 0
  then show ?case by simp
next
  case (Suc n)
  then obtain k where "m = Suc k" "n \<le> k" by (cases m) auto
  then show ?case
    using Suc.prems(1) Suc.IH by (auto split: if_splits option.splits)
qed

text \<open>
  C19: From a consistent state the loop that cleans up the points left behind ends, with one result for
  every bound on its rounds above the number of entries; the bound of the model is such a bound.
\<close>

theorem cleanup_loop_ends:
  assumes "sched_inv s" and "c \<in> set (cpus s)" and "c \<noteq> 0" and "io_ok s" and "current_cpu s = c"
  shows "\<exists>t. (\<forall>fuel. tot s < int fuel \<longrightarrow> cleanup_loop fuel s c (w_left_behind (window s c)) = Ok t) \<and>
    cleanup_loop (nat MAX_SCHEDPOINTS + 2) s c (w_left_behind (window s c)) = Ok t"
proof -
  let ?l = "w_left_behind (window s c)"
  have i: "glob s" "core s c" "marks s c" "cursor s c" using assms(1-3) by (auto simp: sched_inv_def win_def)
  have l: "?l < w_from (window s c) \<Longrightarrow> own s c ?l \<and> e_footprint (entry s ?l) \<noteq> footprint_missed" "0 \<le> ?l"
    using i(4) by (auto simp: cursor_def left_ok_def own_def END_OF_SCHEDPOINT_WINDOW_def MAX_SCHEDPOINTS_def)
  let ?n = "Suc (nat (tot s))"
  have "0 \<le> tot s" "tot s \<le> MAX_SCHEDPOINTS" using i(1) by (auto simp: glob_def)
  then obtain t where t: "cleanup_loop ?n s c ?l = Ok t"
    using res_spec_total [OF cleanup_loop_spec [OF i assms(3) l(1), of ?n True]] l(2) assms(4,5) by auto
  have "cleanup_loop fuel s c ?l = Ok t" if "tot s < int fuel" for fuel
    by (rule cleanup_fuel [OF t]) (use that \<open>0 \<le> tot s\<close> in linarith)
  then show ?thesis
    using \<open>tot s \<le> MAX_SCHEDPOINTS\<close> by (intro exI [of _ t]) (simp add: MAX_SCHEDPOINTS_def)
qed

theorem cleanup_loop_ends_witness:
  "\<exists>t. cleanup_loop (nat MAX_SCHEDPOINTS + 2) example_armed 1 (w_left_behind (window example_armed 1)) = Ok t"
  using cleanup_loop_ends [OF armed_inv, of 1] by (auto simp: io_ok_def ideal_external_def)

end
