(* ===== verification/Memory_Properties.thy ===== *)
theory Memory_Properties
  imports Hcall
begin

text \<open>
  Guest memory seen through the page tables: the page-wise accesses of \<^verbatim>\<open>cpu_memory_rw_debug\<close> are
  byte-wise accesses at translated addresses. The footprints a guest reads back and the switch of the
  store-buffer emulation rest on that.
\<close>

section \<open>Byte-wise access\<close>

definition translate :: "qstate \<Rightarrow> int \<Rightarrow> u64 \<Rightarrow> u64" where
  "translate s c a = phys_page s c (a AND TARGET_PAGE_MASK) + (a AND NOT TARGET_PAGE_MASK)"

fun poke :: "(u64 \<Rightarrow> u64) \<Rightarrow> u64 \<Rightarrow> u8 list \<Rightarrow> (u64 \<Rightarrow> u8) \<Rightarrow> u64 \<Rightarrow> u8" where
  "poke f a [] m = m"
| "poke f a (b # bs) m = poke f (a + 1) bs (m(f a := b))"

definition peek :: "(u64 \<Rightarrow> u64) \<Rightarrow> u64 \<Rightarrow> nat \<Rightarrow> (u64 \<Rightarrow> u8) \<Rightarrow> u8 list" where
  "peek f a n m = map (\<lambda>i. m (f (a + of_nat i))) [0..<n]"

text \<open>Every page of the range is mapped and the host serves every access.\<close>

definition mapped :: "qstate \<Rightarrow> int \<Rightarrow> u64 \<Rightarrow> nat \<Rightarrow> bool" where
  "mapped s c a n \<longleftrightarrow> (\<forall>i<n. phys_page s c ((a + of_nat i) AND TARGET_PAGE_MASK) \<noteq> - 1) \<and>
     (\<forall>p l. ext_as_ok (ext s) p l)"

lemma mapped_drop:
  assumes "mapped s c a n" and "l \<le> n"
  shows "mapped s c (a + of_nat l) (n - l)"
proof -
  have "phys_page s c ((a + of_nat l + of_nat i) AND TARGET_PAGE_MASK) \<noteq> - 1" if "i < n - l" for i
    using assms(1) that unfolding mapped_def by (auto dest!: spec [of _ "l + i"] simp: add.assoc)
  then show ?thesis
    using assms(1) by (simp add: mapped_def)
qed

lemma poke_append: "poke f a (xs @ ys) m = poke f (a + of_nat (length xs)) ys (poke f a xs m)"
  by (induction xs arbitrary: a m) (simp_all add: add.assoc)

lemma peek_append: "peek f a (n + k) m = peek f a n m @ peek f (a + of_nat n) k m"
  by (rule nth_equalityI) (auto simp: peek_def nth_append add.assoc simp flip: of_nat_add)

lemma poke_cong: "(\<And>i. i < length bs \<Longrightarrow> f (a + of_nat i) = g (b + of_nat i)) \<Longrightarrow> poke f a bs m = poke g b bs m"
proof (induction bs arbitrary: a b m)
  case (Cons x bs)
  have "f (a + 1 + of_nat i) = g (b + 1 + of_nat i)" if "i < length bs" for i
    using Cons.prems [of "Suc i"] that by (simp add: add.assoc)
  then have "poke f (a + 1) bs (m(f a := x)) = poke g (b + 1) bs (m(f a := x))"
    by (rule Cons.IH)
  then show ?case using Cons.prems [of 0] by simp
qed simp

lemma poke_outside: "(\<And>i. i < length bs \<Longrightarrow> f (a + of_nat i) \<noteq> p) \<Longrightarrow> poke f a bs m p = m p"
proof (induction bs arbitrary: a m)
  case (Cons x bs)
  have "f (a + 1 + of_nat i) \<noteq> p" if "i < length bs" for i
    using Cons.prems [of "Suc i"] that by (simp add: add.assoc)
  moreover have "f a \<noteq> p" using Cons.prems [of 0] by simp
  ultimately show ?case using Cons.IH by simp
qed simp

lemma write_bytes_poke: "length bs \<le> 2 ^ 64 - 1 \<Longrightarrow> write_bytes p bs m = poke id p bs m"
proof (induction bs arbitrary: p m)
  case (Cons b bs)
  have "write_bytes p (b # bs) m = write_bytes (p + 1) bs (m(p := b))"
  proof
    fix a
    show "write_bytes p (b # bs) m a = write_bytes (p + 1) bs (m(p := b)) a"
    proof (cases "a = p")
      case True
      have "unat (- 1 :: u64) = 2 ^ 64 - 1" by (simp add: unsigned_minus_1_eq_mask mask_eq_exp_minus_1)
      then show ?thesis using True Cons.prems by (simp add: write_bytes_def)
    next
      case False
      then have "unat (a - p) = Suc (unat (a - (p + 1)))"
        using unat_minus_one [of "a - p"] unat_gt_0 [of "a - p"] by (simp add: diff_diff_eq)
      then show ?thesis using False by (simp add: write_bytes_def)
    qed
  qed
  then show ?case using Cons by (simp del: fun_upd_apply)
qed simp

lemma peek_poke:
  assumes "inj_on f ((\<lambda>i. a + of_nat i) ` {..<length bs})" and "length bs \<le> 2 ^ 64"
  shows "peek f a (length bs) (poke f a bs m) = bs"
  using assms
proof (induction bs arbitrary: a m)
  case Nil
  then show ?case by (simp add: peek_def)
next
  case (Cons b bs)
  let ?g = "\<lambda>i. a + of_nat i"
  have inj: "inj_on (\<lambda>i. f (?g i)) {..<Suc (length bs)}"
  proof (rule comp_inj_on [of ?g _ f, unfolded comp_def])
    show "inj_on ?g {..<Suc (length bs)}"
      using Cons.prems(2) by (auto simp: inj_on_def of_nat_eq_iff word_of_nat_eq_iff take_bit_nat_eq_self)
    show "inj_on f (?g ` {..<Suc (length bs)})"
      using Cons.prems(1) by simp
  qed
  have "f (a + 1 + of_nat i) \<noteq> f a" if "i < length bs" for i
    using inj_onD [OF inj, of "Suc i" 0] that by (auto simp: add.assoc)
  then have hd: "poke f (a + 1) bs (m(f a := b)) (f a) = b"
    using poke_outside [of bs f "a + 1" "f a"] by simp
  have "(\<lambda>i. a + 1 + of_nat i) ` {..<length bs} \<subseteq> ?g ` {..<length (b # bs)}"
  proof
    fix x
    assume "x \<in> (\<lambda>i. a + 1 + of_nat i) ` {..<length bs}"
    then obtain i where "i < length bs" "x = ?g (Suc i)" by (auto simp: add.assoc)
    then show "x \<in> ?g ` {..<length (b # bs)}" by (intro image_eqI [of _ _ "Suc i"]) auto
  qed
  then have "inj_on f ((\<lambda>i. a + 1 + of_nat i) ` {..<length bs})"
    using Cons.prems(1) by (rule inj_on_subset [rotated])
  then have "peek f (a + 1) (length bs) (poke f (a + 1) bs (m(f a := b))) = bs"
    using Cons.IH Cons.prems(2) by simp
  then show ?case
    using hd peek_append [of f a 1 "length bs" "poke f (a + 1) bs (m(f a := b))"] by (simp add: peek_def)
qed

section \<open>Pages\<close>

text \<open>Up to the end of the page, going on by \<open>i\<close> bytes stays on the page and moves the offset by \<open>i\<close>.\<close>

lemma page_split: "(a AND TARGET_PAGE_MASK) + (a AND NOT TARGET_PAGE_MASK) = a"
proof -
  have "(a AND TARGET_PAGE_MASK) + (a AND NOT TARGET_PAGE_MASK) = (a AND TARGET_PAGE_MASK) OR (a AND NOT TARGET_PAGE_MASK)"
    by (rule disjunctive_add) (auto simp: bit_simps)
  also have "\<dots> = a"
    by (rule bit_word_eqI) (auto simp: bit_simps)
  finally show ?thesis .
qed

lemma page_plus:
  assumes "x < TARGET_PAGE_SIZE"
  shows "((a AND TARGET_PAGE_MASK) + x) AND TARGET_PAGE_MASK = a AND TARGET_PAGE_MASK"
    and "((a AND TARGET_PAGE_MASK) + x) AND NOT TARGET_PAGE_MASK = x"
proof -
  have m: "TARGET_PAGE_MASK = NOT (mask 12)"
    by (simp add: TARGET_PAGE_MASK_def mask_eq_exp_minus_1)
  have "x AND mask 12 = x"
    using assms less_mask_eq [of x 12] by (simp add: TARGET_PAGE_SIZE_def)
  then have b: "bit x n \<Longrightarrow> n < 12" for n
    by (metis bit_and_iff bit_mask_iff)
  have "(a AND TARGET_PAGE_MASK) + x = (a AND TARGET_PAGE_MASK) OR x"
    using b by (intro disjunctive_add) (auto simp: m bit_simps)
  then show "((a AND TARGET_PAGE_MASK) + x) AND TARGET_PAGE_MASK = a AND TARGET_PAGE_MASK"
    "((a AND TARGET_PAGE_MASK) + x) AND NOT TARGET_PAGE_MASK = x"
    by (auto intro!: bit_word_eqI simp: m bit_simps dest: b)
qed

lemma translate_in_page:
  assumes "i < unat ((a AND TARGET_PAGE_MASK) + TARGET_PAGE_SIZE - a)"
  shows "translate s c (a + of_nat i) = translate s c a + of_nat i"
proof -
  define x where "x = (a AND NOT TARGET_PAGE_MASK) + of_nat i"
  let ?o = "a AND NOT TARGET_PAGE_MASK"
  have o: "?o \<le> 0xfff"
    by (simp add: TARGET_PAGE_MASK_def word_and_le1)
  have "(a AND TARGET_PAGE_MASK) + TARGET_PAGE_SIZE - a = TARGET_PAGE_SIZE - ?o"
    using page_split [of a] by (metis add_diff_cancel_left)
  then have "i < unat (TARGET_PAGE_SIZE - ?o)" using assms by (simp only:)
  then have i: "i + unat ?o < 0x1000"
    using o by (simp add: TARGET_PAGE_SIZE_def unat_sub word_le_nat_alt)
  then have "unat x = unat ?o + i"
    unfolding x_def by (simp add: unat_word_ariths unat_of_nat)
  then have lt: "x < TARGET_PAGE_SIZE"
    using i by (simp add: TARGET_PAGE_SIZE_def word_less_nat_alt)
  have e: "a + of_nat i = (a AND TARGET_PAGE_MASK) + x"
    unfolding x_def add.assoc [symmetric] page_split ..
  have p: "(a + of_nat i) AND TARGET_PAGE_MASK = a AND TARGET_PAGE_MASK" "(a + of_nat i) AND NOT TARGET_PAGE_MASK = x"
    unfolding e using page_plus [OF lt] by auto
  show ?thesis
    unfolding translate_def p by (simp add: x_def add.assoc)
qed

lemma rw_page_bytes:
  assumes "mapped s c a (length buf)" and "buf \<noteq> []" and "length buf \<le> 2 ^ 64 - 1"
  defines "l \<equiv> min (unat ((a AND TARGET_PAGE_MASK) + TARGET_PAGE_SIZE - a)) (length buf)"
  shows "rw_page s c a buf True = Some (l, take l buf, s\<lparr>pmem := poke (translate s c) a (take l buf) (pmem s)\<rparr>)"
    and "rw_page s c a buf False = Some (l, peek (translate s c) a l (pmem s), s)"
proof -
  have tr: "translate s c (a + of_nat i) = translate s c a + of_nat i" if "i < l" for i
    using that by (intro translate_in_page) (simp add: l_def)
  have ok: "phys_page s c (a AND TARGET_PAGE_MASK) \<noteq> - 1" "ext_as_ok (ext s) p k" for p k
    using assms(1,2) by (auto simp: mapped_def dest!: spec [of _ 0])
  have "write_bytes (translate s c a) (take l buf) (pmem s) = poke id (translate s c a) (take l buf) (pmem s)"
    using assms(3) by (intro write_bytes_poke) simp
  also have "\<dots> = poke (translate s c) a (take l buf) (pmem s)"
    by (rule poke_cong) (simp add: tr)
  finally show "rw_page s c a buf True = Some (l, take l buf, s\<lparr>pmem := poke (translate s c) a (take l buf) (pmem s)\<rparr>)"
    using ok by (simp add: rw_page_def Let_def l_def translate_def)
  have "read_bytes (translate s c a) l (pmem s) = peek (translate s c) a l (pmem s)"
    by (simp add: read_bytes_def peek_def tr)
  then show "rw_page s c a buf False = Some (l, peek (translate s c) a l (pmem s), s)"
    using ok by (simp add: rw_page_def Let_def l_def translate_def)
qed

section \<open>Ranges\<close>

lemma mapped_pmem [simp]: "mapped (s\<lparr>pmem := m\<rparr>) = mapped s" "translate (s\<lparr>pmem := m\<rparr>) = translate s"
  by (simp_all add: mapped_def translate_def fun_eq_iff)

lemma rw_write_bytes:
  assumes "mapped s c a (length buf)" and "length buf \<le> 2 ^ 64 - 1"
  shows "cpu_memory_rw_debug s c a buf True = (0, buf, s\<lparr>pmem := poke (translate s c) a buf (pmem s)\<rparr>)"
  using assms
proof (induction "length buf" arbitrary: s a buf rule: less_induct)
  case less
  show ?case
  proof (cases "buf = []")
    case False
    define l where "l = min (unat ((a AND TARGET_PAGE_MASK) + TARGET_PAGE_SIZE - a)) (length buf)"
    note page = rw_page_bytes(1) [OF less.prems(1) False less.prems(2), folded l_def]
    have l: "0 < l" "l \<le> length buf" using page_rest_pos [of a] False by (simp_all add: l_def)
    let ?s = "s\<lparr>pmem := poke (translate s c) a (take l buf) (pmem s)\<rparr>"
    have "cpu_memory_rw_debug ?s c (a + of_nat l) (drop l buf) True =
        (0, drop l buf, ?s\<lparr>pmem := poke (translate ?s c) (a + of_nat l) (drop l buf) (pmem ?s)\<rparr>)"
      by (rule less.hyps) (use l less.prems(2) mapped_drop [OF less.prems(1) l(2)] in simp_all)
    then show ?thesis
      using page False l(2) poke_append [of "translate s c" a "take l buf" "drop l buf"]
      by (simp add: cpu_memory_rw_debug.simps [of s] min_absorb2)
  qed simp
qed

lemma rw_read_bytes:
  assumes "mapped s c a (length buf)" and "length buf \<le> 2 ^ 64 - 1"
  shows "cpu_memory_rw_debug s c a buf False = (0, peek (translate s c) a (length buf) (pmem s), s)"
  using assms
proof (induction "length buf" arbitrary: a buf rule: less_induct)
  case less
  show ?case
  proof (cases "buf = []")
    case True
    then show ?thesis by (simp add: peek_def)
  next
    case False
    define l where "l = min (unat ((a AND TARGET_PAGE_MASK) + TARGET_PAGE_SIZE - a)) (length buf)"
    note page = rw_page_bytes(2) [OF less.prems(1) False less.prems(2), folded l_def]
    have l: "0 < l" "l \<le> length buf" using page_rest_pos [of a] False by (simp_all add: l_def)
    have "cpu_memory_rw_debug s c (a + of_nat l) (drop l buf) False =
        (0, peek (translate s c) (a + of_nat l) (length (drop l buf)) (pmem s), s)"
      by (rule less.hyps) (use l less.prems(2) mapped_drop [OF less.prems(1) l(2)] in simp_all)
    then show ?thesis
      using page False l(2) peek_append [of "translate s c" a l "length buf - l"]
      by (simp add: cpu_memory_rw_debug.simps [of s])
  qed
qed

text \<open>
  C13: A debug access to a mapped range of guest-virtual memory succeeds, and although it proceeds page by page it is the byte-wise
  access through the page tables: a write stores each byte at its translated address and changes nothing else, a read returns those bytes.
\<close>

theorem guest_access_bytewise:
  assumes "mapped s c a (length buf)" and "length buf \<le> 2 ^ 64 - 1"
  shows "cpu_memory_rw_debug s c a buf True = (0, buf, s\<lparr>pmem := poke (translate s c) a buf (pmem s)\<rparr>) \<and>
    cpu_memory_rw_debug s c a buf False = (0, peek (translate s c) a (length buf) (pmem s), s)"
  using rw_write_bytes [OF assms] rw_read_bytes [OF assms] by simp

lemma boot_mapped [simp]: "mapped example_boot c a n"
proof -
  have "p AND TARGET_PAGE_MASK \<noteq> - 1" for p
  proof
    assume "p AND TARGET_PAGE_MASK = - 1"
    then have "bit (p AND TARGET_PAGE_MASK) 0" by simp
    then show False by (simp add: TARGET_PAGE_MASK_def bit_simps)
  qed
  then show ?thesis by (simp add: mapped_def boot_defs)
qed

theorem guest_access_bytewise_witness:
  "cpu_memory_rw_debug example_boot 0 0x1ffe [1, 2, 3, 4] True =
     (0, [1, 2, 3, 4], example_boot\<lparr>pmem := poke (translate example_boot 0) 0x1ffe [1, 2, 3, 4] (pmem example_boot)\<rparr>)"
  using guest_access_bytewise [of example_boot 0 "0x1ffe" "[1, 2, 3, 4]"] by simp

text \<open>
  C30: What was written to a mapped range is read back from it, across page boundaries, where the page tables send the
  addresses of the range to different places.
\<close>

theorem guest_write_read_back:
  assumes "mapped s c a (length buf)" and "length buf \<le> 2 ^ 64 - 1" and "length old = length buf"
    and "inj_on (translate s c) ((\<lambda>i. a + of_nat i) ` {..<length buf})"
  shows "\<exists>t. cpu_memory_rw_debug s c a buf True = (0, buf, t) \<and> cpu_memory_rw_debug t c a old False = (0, buf, t)"
  using rw_write_bytes [OF assms(1,2)] peek_poke [OF assms(4), of "pmem s"] assms
    rw_read_bytes [of "s\<lparr>pmem := poke (translate s c) a buf (pmem s)\<rparr>" c a old] by simp

lemma boot_translate: "translate example_boot c a = a"
  using page_split [of a] by (simp add: translate_def boot_defs)

theorem guest_write_read_back_witness:
  "\<exists>t. cpu_memory_rw_debug example_boot 0 0x1ffe [1, 2, 3, 4] True = (0, [1, 2, 3, 4], t) \<and>
     cpu_memory_rw_debug t 0 0x1ffe [0, 0, 0, 0] False = (0, [1, 2, 3, 4], t)"
  by (rule guest_write_read_back) (simp_all add: boot_translate inj_on_def)

section \<open>Footprints\<close>

definition own_entries :: "qstate \<Rightarrow> int \<Rightarrow> int list \<Rightarrow> int list" where
  "own_entries s c is = filter (\<lambda>i. e_cpu (entry s i) = c) is"

definition footprint_image :: "qstate \<Rightarrow> int list \<Rightarrow> u8 list" where
  "footprint_image s is = concat (map (\<lambda>i. le_bytes 8 (footprint_code (e_footprint (entry s i)))) is)"

definition needs_retry :: "qstate \<Rightarrow> int list \<Rightarrow> bool" where
  "needs_retry s is \<longleftrightarrow> (\<exists>i\<in>set is. e_footprint (entry s i) \<in> {footprint_not_addressed, footprint_dropped})"

lemma length_footprint_image [simp]: "length (footprint_image s is) = 8 * length is"
  by (induction "is") (simp_all add: footprint_image_def)

lemma footprint_loop_writes:
  assumes "mapped s c (d + idx) (8 * length (own_entries s c is))" and "8 * length (own_entries s c is) \<le> 2 ^ 64 - 1"
  shows "footprint_loop c d is idx cnt retry s = (True, cnt + of_nat (length (own_entries s c is)),
    if needs_retry s (own_entries s c is) then 1 else retry,
    s\<lparr>pmem := poke (translate s c) (d + idx) (footprint_image s (own_entries s c is)) (pmem s)\<rparr>)"
  using assms
proof (induction "is" arbitrary: idx cnt retry s)
  case Nil
  then show ?case by (simp add: own_entries_def needs_retry_def footprint_image_def)
next
  case (Cons i "is")
  show ?case
  proof (cases "e_cpu (entry s i) = c")
    case False
    then show ?thesis using Cons by (simp add: own_entries_def)
  next
    case True
    let ?b = "le_bytes 8 (footprint_code (e_footprint (entry s i)))"
    let ?s = "s\<lparr>pmem := poke (translate s c) (d + idx) ?b (pmem s)\<rparr>"
    have own: "own_entries s c (i # is) = i # own_entries s c is" "own_entries ?s c is = own_entries s c is"
      using True by (simp_all add: own_entries_def)
    have m: "mapped s c (d + idx) (length ?b)" "mapped s c (d + idx + of_nat 8) (8 * length (own_entries s c is))"
      using Cons.prems(1) mapped_drop [OF Cons.prems(1), of 8] by (auto simp: own mapped_def)
    have "footprint_loop c d is (idx + 8) (cnt + 1) r ?s = (True, cnt + 1 + of_nat (length (own_entries s c is)),
        if needs_retry ?s (own_entries s c is) then 1 else r,
        ?s\<lparr>pmem := poke (translate s c) (d + (idx + 8)) (footprint_image ?s (own_entries s c is)) (pmem ?s)\<rparr>)" for r
      using Cons.IH [of ?s "idx + 8"] m(2) Cons.prems(2) by (simp add: own add.assoc)
    then show ?thesis
      using True rw_write_bytes [OF m(1)] poke_append [of "translate s c" "d + idx" ?b]
      by (simp add: own Let_def needs_retry_def footprint_image_def add.assoc)
  qed
qed

text \<open>
  C14: Once a CPU has left the schedule, the footprint hypercall succeeds on mapped buffers: it stores the footprints of the CPU's own
  entries in order, eight bytes each, then their number, then whether the run is worth repeating, and touches nothing else.
\<close>

theorem footprints_reported:
  assumes "qcsched_check_cpu_state s c qcsched_cpu_deactivated" and "0 \<le> tot s" and "tot s \<le> MAX_SCHEDPOINTS"
    and "mapped s c data_uptr (8 * length (own_entries s c [0..tot s - 1]))"
    and "mapped s c cnt_uptr 8" and "mapped s c retry_uptr 8"
  shows "qcsched_footprint_breakpoint s c cnt_uptr data_uptr retry_uptr =
    (let es = own_entries s c [0..tot s - 1]; tr = translate s c;
         m1 = poke tr data_uptr (footprint_image s es) (pmem s);
         m2 = poke tr cnt_uptr (le_bytes 8 (of_nat (length es))) m1
     in (0, s\<lparr>pmem := poke tr retry_uptr (le_bytes 8 (if needs_retry s es then 1 else 0)) m2\<rparr>))"
proof -
  have "length (own_entries s c [0..tot s - 1]) \<le> length [0..tot s - 1]"
    unfolding own_entries_def by (rule length_filter_le)
  also have "\<dots> \<le> 256"
    using assms(2,3) by (simp add: MAX_SCHEDPOINTS_def)
  finally have "footprint_loop c data_uptr [0..tot s - 1] 0 0 0 s =
      (True, of_nat (length (own_entries s c [0..tot s - 1])), if needs_retry s (own_entries s c [0..tot s - 1]) then 1 else 0,
       s\<lparr>pmem := poke (translate s c) data_uptr (footprint_image s (own_entries s c [0..tot s - 1])) (pmem s)\<rparr>)"
    using footprint_loop_writes [of s c data_uptr 0 "[0..tot s - 1]" 0 0] assms(4) by simp
  then show ?thesis
    using assms(1,5,6) by (simp add: qcsched_footprint_breakpoint_def Let_def rw_write_bytes del: upto.simps)
qed

definition example_done :: qstate where
  "example_done = upd_sched (\<lambda>q. q\<lparr>cpu_state := (\<lambda>_. qcsched_cpu_deactivated), total := 2,
     entries := (\<lambda>_. zero_entry)(1 := zero_entry\<lparr>schedpoint := \<lparr>sp_addr = 0x3000, sp_order = 1, sp_footprint = footprint_dropped\<rparr>, e_cpu := 1\<rparr>)\<rparr>)
     example_boot"

theorem footprints_reported_witness:
  "\<exists>t. qcsched_footprint_breakpoint example_done 1 0x100 0x200 0x300 = (0, t) \<and> pmem t 0x100 = 1 \<and> pmem t 0x300 = 1"
proof -
  have f: "phys_page example_done = phys_page example_boot" "ext example_done = ext example_boot"
    "tot example_done = 2" "own_entries example_done 1 [0..1] = [1]"
    by (simp_all add: example_done_def upd_defs own_entries_def boot_defs upto_rec1)
  have r: "needs_retry example_done [1]"
    by (simp add: needs_retry_def example_done_def upd_defs)
  have m: "mapped example_done = mapped example_boot" "translate example_done = translate example_boot"
    by (simp_all add: mapped_def translate_def f fun_eq_iff)
  have "qcsched_check_cpu_state example_done 1 qcsched_cpu_deactivated"
    by (simp add: check_cpu_state_simps example_done_def upd_defs)
  then show ?thesis
    using footprints_reported [of example_done 1 "0x200" "0x100" "0x300"]
    by (simp add: f(3,4) m r MAX_SCHEDPOINTS_def Let_def boot_translate le_bytes_def upt_conv_Cons fun_eq_iff
        cong: conj_cong)
qed

section \<open>The switch of the emulation\<close>

text \<open>
  C31: With the switch announced and mapped, enabling the store-buffer emulation stores a one in it and disabling it stores a zero and lets
  the machine run on; while some CPU is still in the schedule disabling is refused with \<^verbatim>\<open>-EAGAIN\<close> and changes nothing.
\<close>

theorem emulation_switch:
  assumes "vmi_ssb_do_emulate (vmi_info s) \<noteq> 0" and "mapped s c (vmi_ssb_do_emulate (vmi_info s)) 1"
  shows "(\<not> kssb_enabled (sched s) \<longrightarrow> qcsched_enable_kssb s c =
      Ok (0, upd_sched (\<lambda>q. q\<lparr>kssb_enabled := True\<rparr>)
        (s\<lparr>pmem := (pmem s)(translate s c (vmi_ssb_do_emulate (vmi_info s)) := 1)\<rparr>))) \<and>
    (kssb_enabled (sched s) \<longrightarrow> qcsched_disable_kssb s c =
      (if is_all_vcpus_deactivated s
       then Ok (0, upd_sched (\<lambda>q. q\<lparr>kssb_enabled := False\<rparr>)
         (s\<lparr>pmem := (pmem s)(translate s c (vmi_ssb_do_emulate (vmi_info s)) := 0), vm_running := True\<rparr>))
       else Ok (ulong_of_int (- EAGAIN), s)))"
proof -
  have "mapped (s\<lparr>vm_running := b\<rparr>) = mapped s" "translate (s\<lparr>vm_running := b\<rparr>) = translate s" for b
    by (simp_all add: mapped_def translate_def fun_eq_iff)
  then have "cpu_memory_rw_debug (s\<lparr>vm_running := b\<rparr>) c (vmi_ssb_do_emulate (vmi_info s)) [v] True =
      (0, [v], s\<lparr>vm_running := b, pmem := (pmem s)(translate s c (vmi_ssb_do_emulate (vmi_info s)) := v)\<rparr>)" for b v
    using assms(2) rw_write_bytes [of "s\<lparr>vm_running := b\<rparr>" c _ "[v]"] by simp
  from this [of "vm_running s"] this show ?thesis
    using assms(1)
    by (simp add: qcsched_enable_kssb_def qcsched_disable_kssb_def qcsched_rw_ssb_do_emulate_def vm_stop_def
        vm_restart_def upd_sched_def)
qed

definition example_kssb :: qstate where
  "example_kssb = upd_vmi (\<lambda>v. v\<lparr>vmi_ssb_do_emulate := 0x5000\<rparr>) example_boot"

theorem emulation_switch_witness: "\<exists>t. qcsched_enable_kssb example_kssb 0 = Ok (0, t) \<and> pmem t 0x5000 = 1"
proof -
  have m: "mapped example_kssb = mapped example_boot" "translate example_kssb = translate example_boot"
    by (simp_all add: mapped_def translate_def fun_eq_iff example_kssb_def upd_vmi_def)
  have e: "vmi_ssb_do_emulate (vmi_info example_kssb) = 0x5000" "\<not> kssb_enabled (sched example_kssb)"
    by (simp_all add: example_kssb_def upd_vmi_def boot_defs)
  show ?thesis
    using emulation_switch [of example_kssb 0] by (simp add: m e boot_translate upd_sched_def)
qed

end
