(* ===== verification/Trampoline.thy ===== *)
theory Trampoline
  imports Breakpoint
begin

text \<open>
  The build with \<^verbatim>\<open>CONFIG_QCSCHED_TRAMPOLINE\<close>: a stopped task spins in a trampoline of the
  guest kernel (\<^verbatim>\<open>qcsched/trampoline.c\<close>), and the locks the guest announces are recorded
  (\<^verbatim>\<open>qcsched/vmi.c\<close>). The state pairs the scheduler's state with the trampoline part of
  \<^verbatim>\<open>struct qcsched_exec_info\<close>.
\<close>

section \<open>The trampoline\<close>

record qcsched_trampoline_info =
  tr_task :: vmi_task
  orig_regs :: kvm_regs
  trampoled :: bool

record tstate =
  base :: qstate
  trampolines :: "int \<Rightarrow> qcsched_trampoline_info"

definition upd_base :: "(qstate \<Rightarrow> qstate) \<Rightarrow> tstate \<Rightarrow> tstate" where
  "upd_base f t = t\<lparr>base := f (base t)\<rparr>"

definition upd_trampoline ::
  "int \<Rightarrow> (qcsched_trampoline_info \<Rightarrow> qcsched_trampoline_info) \<Rightarrow> tstate \<Rightarrow> tstate" where
  "upd_trampoline c f t = t\<lparr>trampolines := (trampolines t)(c := f (trampolines t c))\<rparr>"

definition zero_trampoline :: qcsched_trampoline_info where
  "zero_trampoline = \<lparr>tr_task = \<lparr>task_struct = 0\<rparr>, orig_regs = zero_regs, trampoled = False\<rparr>"

definition jump_into_trampoline :: "qstate \<Rightarrow> int \<Rightarrow> qstate" where
  "jump_into_trampoline s c =
     upd_cpu c (\<lambda>p. p\<lparr>regs := (regs p)\<lparr>rip := trampoline_addr (vmi_info s) 0\<rparr>, qcsched_dirty := True\<rparr>) s"

definition trampoline_kidnap_task :: "tstate \<Rightarrow> int \<Rightarrow> tstate" where
  "trampoline_kidnap_task t c =
     upd_trampoline c (\<lambda>x. x\<lparr>trampoled := True\<rparr>)
       (upd_base (\<lambda>s. jump_into_trampoline s c)
         (upd_trampoline c (\<lambda>x. x\<lparr>orig_regs := regs (cpu_of (base t) c)\<rparr>) t))"

definition trampoline_resume_task :: "tstate \<Rightarrow> int \<Rightarrow> tstate" where
  "trampoline_resume_task t c =
     (let t = upd_base (upd_cpu c (\<lambda>p. p\<lparr>regs := orig_regs (trampolines t c), qcsched_dirty := True,
                qcsched_force_wakeup := False\<rparr>)) t;
          t = upd_trampoline c (\<lambda>_. zero_trampoline) t
      in upd_base (upd_info c (\<lambda>x. x\<lparr>kicked := False\<rparr>)) t)"

definition trampoline_task_kidnapped :: "tstate \<Rightarrow> int \<Rightarrow> bool" where
  "trampoline_task_kidnapped t c \<longleftrightarrow> trampoled (trampolines t c)"

definition trampoline_wake_cpu_up :: "tstate \<Rightarrow> int \<Rightarrow> int \<Rightarrow> tstate res" where
  "trampoline_wake_cpu_up t c wakeup =
     (let (r, s) = kvm_insert_breakpoint_cpu (base t) wakeup (trampoline_addr (vmi_info (base t)) 1) 1
                     GDB_BREAKPOINT_HW
      in c_assert (r = 0 \<or> r = - EEXIST) (t\<lparr>base := s\<rparr>))"

interpretation tramp: task_control trampoline_task_kidnapped trampoline_kidnap_task trampoline_resume_task
  by unfold_locales
    (auto simp: trampoline_task_kidnapped_def trampoline_kidnap_task_def trampoline_resume_task_def
      upd_trampoline_def upd_base_def zero_trampoline_def Let_def)

section \<open>Execution control in this build\<close>

text \<open>
  \<^verbatim>\<open>wake_cpu_up\<close> of this build calls \<^verbatim>\<open>trampolione_wake_cpu_up\<close>, a name no file defines;
  the model calls the function of \<^verbatim>\<open>trampoline.c\<close>.
\<close>

definition t_kidnap_task :: "tstate \<Rightarrow> int \<Rightarrow> tstate res" where
  "t_kidnap_task t c =
     (let kidnapped = trampoline_task_kidnapped t c in
      res_bind (qcsched_vmi_running_context_being_scheduled (base t) c True) (\<lambda>ok.
        res_bind (c_assert ok t) (\<lambda>t.
          if current (sched (base t)) = tot (base t) \<or> \<not> activated (sched (base t)) then Ok t
          else res_bind (c_assert (\<not> kidnapped) t) (\<lambda>t.
                 let t = trampoline_kidnap_task t c in
                 res_bind (qcsched_arm_selfescape_timer (base t) c) (\<lambda>s. Ok (t\<lparr>base := s\<rparr>))))))"

definition t_wake_others_up :: "tstate \<Rightarrow> int \<Rightarrow> tstate res" where
  "t_wake_others_up t c0 =
     foreach (cpus (base t)) (\<lambda>c t.
       if \<not> trampoline_task_kidnapped t c \<or> c = c0 then Ok t else trampoline_wake_cpu_up t c0 c) t"

definition t_yield_turn_from :: "tstate \<Rightarrow> int \<Rightarrow> int \<Rightarrow> tstate res" where
  "t_yield_turn_from t c current_order =
     res_bind (hand_over_baton_from (base t) c current_order) (\<lambda>s.
       res_bind (t_kidnap_task (t\<lparr>base := s\<rparr>) c) (\<lambda>t. t_wake_others_up t c))"

section \<open>Recording locks\<close>

definition MAX_LOCKS :: int where "MAX_LOCKS = 128"

definition qcsched_vmi_lock_info_duplicated :: "qcsched_vmi_lock_info \<Rightarrow> qcsched_vmi_lock \<Rightarrow> bool" where
  "qcsched_vmi_lock_info_duplicated li l \<longleftrightarrow> list_ex (\<lambda>i. acquired li i = l) [0..lock_count li - 1]"

definition qcsched_vmi_lockdep_whitelisted :: "qcsched_vmi_info \<Rightarrow> u64 \<Rightarrow> bool" where
  "qcsched_vmi_lockdep_whitelisted v addr \<longleftrightarrow>
     list_ex (\<lambda>i. whitelist (lockdep_whitelist v) i = addr) [0..wl_count (lockdep_whitelist v) - 1]"

definition lock_acquired :: "qcsched_vmi_lock_info \<Rightarrow> qcsched_vmi_lock \<Rightarrow> qcsched_vmi_lock_info" where
  "lock_acquired li l =
     li\<lparr>acquired := (acquired li)(lock_count li := l), lock_count := lock_count li + 1\<rparr>"

definition t_vmi_lock_acquire ::
  "tstate \<Rightarrow> int \<Rightarrow> u64 \<Rightarrow> int \<Rightarrow> int \<Rightarrow> u64 \<Rightarrow> tstate res" where
  "t_vmi_lock_acquire t c addr try_lock rd ip =
     (let s = base t; li = lock_info (vmi_info s) c in
      if qcsched_vmi_lockdep_whitelisted (vmi_info s) addr then Ok t
      else res_bind (qcsched_vmi_running_context_being_scheduled s c True) (\<lambda>ours.
        if \<not> ours then Ok t
        else if \<not> qcsched_check_cpu_state s c qcsched_cpu_activated \<or>
                qcsched_check_cpu_state s c qcsched_cpu_deactivated then Ok t
        else if lock_count li \<ge> MAX_LOCKS then Ok t
        else
          let l = \<lparr>lockdep_addr = addr, lock_ip = ip, trylock = try_lock, lock_read = rd\<rparr> in
          if qcsched_vmi_lock_info_duplicated li l then Ok t
          else
            let t = upd_base (upd_vmi (\<lambda>v. v\<lparr>lock_info := (lock_info v)(c := lock_acquired li l)\<rparr>)) t
            in if \<not> qcsched_window_lock_contending (base t) c then Ok t
               else if \<not> trampoline_task_kidnapped t c
               then t_yield_turn_from t c (w_from (window (base t) c))
               else Ok (upd_base (\<lambda>s. s\<lparr>warn_once := True\<rparr>) t)))"

text \<open>The released lock is replaced by the last one of the array.\<close>

definition lock_released :: "qcsched_vmi_lock_info \<Rightarrow> u64 \<Rightarrow> qcsched_vmi_lock_info" where
  "lock_released li addr =
     (case List.find (\<lambda>i. addr = lockdep_addr (acquired li i)) [0..lock_count li - 1] of
        None \<Rightarrow> li
      | Some i \<Rightarrow> li\<lparr>acquired := (acquired li)(i := acquired li (lock_count li - 1)),
                     lock_count := lock_count li - 1\<rparr>)"

definition t_vmi_lock_release :: "tstate \<Rightarrow> int \<Rightarrow> u64 \<Rightarrow> tstate res" where
  "t_vmi_lock_release t c addr =
     (let s = base t in
      res_bind (qcsched_vmi_running_context_being_scheduled s c True) (\<lambda>ours.
        if \<not> ours then Ok t
        else if \<not> qcsched_check_cpu_state s c qcsched_cpu_activated \<or>
                qcsched_check_cpu_state s c qcsched_cpu_deactivated then Ok t
        else Ok (upd_base (upd_vmi (\<lambda>v. v\<lparr>lock_info :=
               (lock_info v)(c := lock_released (lock_info v c) addr)\<rparr>)) t)))"

end
