(* ===== verification/Component_Properties.thy ===== *)
theory Component_Properties
  imports Scenario Trampoline
begin

text \<open>
  Properties of single components: the debug registers and the error codes of the breakpoint tables, the context test of
  the introspection, the hypercalls that hand over and start a schedule, the watchdog, the trampoline and the recorded locks.
\<close>

section \<open>Breakpoint tables\<close>

text \<open>The four slots, filled in turn.\<close>

lemma dr7_bits_wf:
  assumes "hw_wf s c" and "0 \<le> n" and "n < nb (hw_breakpoint s c)"
  shows "dr7_bits (hw_breakpoint s c) n = push_bit (nat (n * 2)) 2"
  using assms by (auto simp: dr7_bits_def hw_wf_def type_code_def len_code_def GDB_BREAKPOINT_HW_def
      GDB_WATCHPOINT_WRITE_def GDB_WATCHPOINT_ACCESS_def)

lemma fold_debugregs:
  fixes d :: "int \<Rightarrow> u64"
  assumes "k \<le> 4" and "\<And>n. n < k \<Longrightarrow> dr7_bits t (int n) = push_bit (2 * n) 2"
  defines "r \<equiv> fold (set_debugreg t) [0..int k - 1] d"
  shows "(\<forall>n<k. r (int n) = bp_addr (bp t (int n))) \<and> (\<forall>j. bit (r 7) j \<longleftrightarrow> bit (d 7) j \<or> (\<exists>n<k. j = 2 * n + 1))"
  using assms(1,2) unfolding r_def
proof (induction k)
  case (Suc k)
  let ?R = "fold (set_debugreg t) [0..int k - 1] d"
  have IH: "\<forall>n<k. ?R (int n) = bp_addr (bp t (int n))" "\<forall>j. bit (?R 7) j \<longleftrightarrow> bit (d 7) j \<or> (\<exists>n<k. j = 2 * n + 1)"
    using Suc by simp_all
  have f: "fold (set_debugreg t) [0..int (Suc k) - 1] d = set_debugreg t (int k) ?R"
    by (simp add: upto_rec2)
  have "set_debugreg t (int k) ?R (int n) = bp_addr (bp t (int n))" if "n < Suc k" for n
    using that IH(1) Suc.prems(1) by (cases "n = k") (simp_all add: set_debugreg_def Let_def)
  moreover have "bit (push_bit (2 * k) 2 :: u64) j \<longleftrightarrow> j = 2 * k + 1" for j
    using Suc.prems(1) unfolding bit_push_bit_iff bit_2_iff by auto
  then have "bit (set_debugreg t (int k) ?R 7) j \<longleftrightarrow> bit (d 7) j \<or> (\<exists>n<Suc k. j = 2 * n + 1)" for j
    using IH(2) Suc.prems unfolding less_Suc_eq by (simp add: set_debugreg_def Let_def bit_or_iff) blast
  ultimately show ?case
    unfolding f by blast
qed simp

lemma table_debugregs:
  assumes "hw_wf s c" and "0 < nb (hw_breakpoint s c)" and "d 7 = 0x600"
  defines "r \<equiv> fold (set_debugreg (hw_breakpoint s c)) [0..nb (hw_breakpoint s c) - 1] d"
  shows "(\<forall>n. 0 \<le> n \<and> n < nb (hw_breakpoint s c) \<longrightarrow> r n = bp_addr (bp (hw_breakpoint s c) n)) \<and>
    (\<forall>n<4. bit (r 7) (2 * n + 1) \<longleftrightarrow> int n < nb (hw_breakpoint s c)) \<and> drop_bit 16 (r 7) = 0"
proof -
  let ?t = "hw_breakpoint s c"
  define k where "k = nat (nb ?t)"
  have k: "int k = nb ?t" "k \<le> 4" using assms(1) by (auto simp: hw_wf_def k_def)
  have "dr7_bits ?t (int n) = push_bit (2 * n) 2" if "n < k" for n
    using dr7_bits_wf [OF assms(1), of "int n"] that k(1) by (simp add: nat_mult_distrib mult.commute)
  note f = fold_debugregs [OF k(2) this, of d, unfolded k(1), folded r_def]
  have six: "bit (0x600 :: u64) j \<longleftrightarrow> j = 9 \<or> j = 10" for j
  proof -
    have e: "(0x600 :: u64) = push_bit 9 1 OR push_bit 10 1" by simp
    show ?thesis unfolding e bit_or_iff bit_push_bit_iff bit_1_iff by auto
  qed
  have r7: "bit (r 7) j \<longleftrightarrow> (j = 9 \<or> j = 10) \<or> (\<exists>n<k. j = 2 * n + 1)" for j
    using f unfolding assms(3) six by blast
  have "bit (r 7) (2 * n + 1) \<longleftrightarrow> n < k" if "n < 4" for n
    unfolding r7 using that by auto
  moreover have "\<not> bit (drop_bit 16 (r 7)) j" for j
    unfolding bit_drop_bit_eq comp_def r7 using k(2) by auto
  then have "drop_bit 16 (r 7) = 0"
    by (intro bit_eqI) simp
  moreover have "r n = bp_addr (bp ?t n)" if "0 \<le> n" "n < nb ?t" for n
    using conjunct1 [OF f, rule_format, of "nat n"] that k(1) by simp
  ultimately show ?thesis using k(1) by auto
qed

text \<open>
  C20: The debug registers handed to KVM are those of the table: each address register holds the address of its slot, \<^verbatim>\<open>DR7\<close> enables
  exactly the slots in use, and no slot is anything but an execution breakpoint.
\<close>

theorem debug_registers_match:
  assumes "hw_wf s c" and "0 < nb (hw_breakpoint s c)"
  shows "let d = guest_debug (snd (kvm_update_guest_debug s c reinject)) c in
    (\<forall>n. 0 \<le> n \<and> n < nb (hw_breakpoint s c) \<longrightarrow> debugreg d n = bp_addr (bp (hw_breakpoint s c) n)) \<and>
    (\<forall>n<4. bit (debugreg d 7) (2 * n + 1) \<longleftrightarrow> int n < nb (hw_breakpoint s c)) \<and>
    drop_bit 16 (debugreg d 7) = 0 \<and> bit (control d) 0 \<and> bit (control d) 17"
proof -
  let ?t = "hw_breakpoint s c" and ?d = "guest_debug (snd (kvm_update_guest_debug s c reinject)) c"
  have dr: "debugreg ?d = fold (set_debugreg ?t) [0..nb ?t - 1] ((debugreg (ext_stack_dbg (ext s)))(7 := 0x600))"
    using assms(2) by (simp add: kvm_update_guest_debug_def kvm_arch_update_guest_debug_cpu_def Let_def)
  have "bit (control ?d) 0" "bit (control ?d) 17"
    using assms(2) by (simp_all add: kvm_update_guest_debug_def kvm_arch_update_guest_debug_cpu_def Let_def
        KVM_GUESTDBG_ENABLE_def KVM_GUESTDBG_USE_HW_BP_def bit_simps)
  then show ?thesis
    using table_debugregs [OF assms, of "(debugreg (ext_stack_dbg (ext s)))(7 := 0x600)"] by (simp add: Let_def dr)
qed

theorem debug_registers_match_witness:
  "debugreg (guest_debug (snd (kvm_update_guest_debug example_armed 1 0)) 1) 1 = 0x2000"
proof -
  have "nb (hw_breakpoint example_armed 1) = 2" "bp_addr (bp (hw_breakpoint example_armed 1) 1) = 0x2000"
    by (simp_all add: example_table_def)
  then show ?thesis
    using debug_registers_match [OF armed_wf, of 1 0] by (simp add: Let_def del: armed_simps)
qed

text \<open>
  C21: Inserting a hardware breakpoint into a well-formed table answers each case with its own code: \<^verbatim>\<open>-EEXIST\<close> for an address it
  holds, \<^verbatim>\<open>-ENOBUFS\<close> for a fifth address, \<^verbatim>\<open>-ENOSYS\<close> for a watchpoint, each without any effect, and otherwise the address is added.
\<close>

theorem insert_breakpoint_cases:
  assumes "hw_wf s c" and "\<And>n. ext_set_guest_debug (ext s) n c = 0"
  shows "(a \<in> hw_addrs s c \<longrightarrow> kvm_insert_breakpoint_cpu s c a 1 GDB_BREAKPOINT_HW = (- EEXIST, s)) \<and>
    (a \<notin> hw_addrs s c \<and> card (hw_addrs s c) = 4 \<longrightarrow> kvm_insert_breakpoint_cpu s c a 1 GDB_BREAKPOINT_HW = (- ENOBUFS, s)) \<and>
    (type \<notin> {GDB_BREAKPOINT_SW, GDB_BREAKPOINT_HW} \<longrightarrow> kvm_insert_breakpoint_cpu s c a 1 type = (- ENOSYS, s)) \<and>
    (a \<notin> hw_addrs s c \<and> card (hw_addrs s c) \<noteq> 4 \<longrightarrow>
       (\<exists>t. kvm_insert_breakpoint_cpu s c a 1 GDB_BREAKPOINT_HW = (0, t) \<and> hw_wf t c \<and> hw_addrs t c = insert a (hw_addrs s c)))"
proof -
  have "\<exists>t. kvm_insert_breakpoint_cpu s c a 1 GDB_BREAKPOINT_HW = (0, t) \<and> hw_wf t c \<and> hw_addrs t c = insert a (hw_addrs s c)"
    if a: "a \<notin> hw_addrs s c" "card (hw_addrs s c) \<noteq> 4"
  proof -
    obtain e t where t: "kvm_insert_breakpoint_cpu s c a 1 GDB_BREAKPOINT_HW = (e, t)" by fastforce
    have "card (hw_addrs s c) < 4" using a(2) hwbp.card_addrs [OF assms(1)] by simp
    then obtain u where u: "kvm_arch_insert_hw_breakpoint_cpu s c a 1 GDB_BREAKPOINT_HW = (0, u)" "hw_wf u c"
      "hw_addrs u c = insert a (hw_addrs s c)"
      using hwbp.ins_fresh [OF assms(1) a(1)] by blast
    then have "hw_breakpoint t c = hw_breakpoint u c"
      using t by (auto simp: kvm_insert_breakpoint_cpu_def GDB_BREAKPOINT_HW_def GDB_BREAKPOINT_SW_def
          dest!: kvm_update_guest_debug_frame)
    moreover have "e = 0" using kvm_insert_breakpoint_cpu_result [OF assms, of a] t a by simp
    ultimately show ?thesis using t u(2,3) hw_cong [of t c u] by auto
  qed
  then show ?thesis
    using hwbp.ins_dup [OF assms(1), of a] hwbp.ins_full [OF assms(1), of a]
    by (auto simp: kvm_insert_breakpoint_cpu_def kvm_arch_insert_hw_breakpoint_cpu_def [where type = type] errno_defs
        GDB_BREAKPOINT_HW_def GDB_BREAKPOINT_SW_def)
qed

theorem insert_breakpoint_cases_witness:
  "kvm_insert_breakpoint_cpu example_armed 1 0x2000 1 GDB_BREAKPOINT_HW = (- EEXIST, example_armed)"
  using insert_breakpoint_cases [OF armed_wf, of 1 "0x2000"] by (simp add: armed_hw ideal_external_def)

section \<open>The context of a CPU\<close>

lemma IRQ_MASK_mask: "IRQ_MASK n = mask n"
  by (simp add: IRQ_MASK_def mask_eq_exp_minus_1 push_bit_eq_mult)

lemma and_zero_iff: "(w :: u64) AND m \<noteq> 0 \<longleftrightarrow> (\<exists>i. bit w i \<and> bit m i)"
proof
  assume "w AND m \<noteq> 0"
  then show "\<exists>i. bit w i \<and> bit m i"
    using bit_eqI [of "w AND m" 0] by (auto simp: bit_and_iff)
next
  assume "\<exists>i. bit w i \<and> bit m i"
  then obtain i where "bit (w AND m) i" by (auto simp: bit_and_iff)
  then show "w AND m \<noteq> 0" by auto
qed

text \<open>
  C37: The test of the preemption counter is the test of its interrupt bits: a CPU runs a task exactly if none of the hard-interrupt and
  \<^verbatim>\<open>NMI\<close> bits 16 to 23 is set and bit 8, the one that marks a soft interrupt being served, is clear.
\<close>

theorem in_task_bits: "in_task_count pc \<longleftrightarrow> \<not> (bit pc 8 \<or> (\<exists>i. 16 \<le> i \<and> i < 24 \<and> bit pc i))"
proof -
  have n: "pc AND NMI_MASK \<noteq> 0 \<longleftrightarrow> (\<exists>i. 20 \<le> i \<and> i < 24 \<and> bit pc i)"
    unfolding and_zero_iff by (auto simp: NMI_MASK_def NMI_SHIFT_def HARDIRQ_SHIFT_def SOFTIRQ_SHIFT_def IRQ_MASK_mask bit_simps)
  have h: "pc AND HARDIRQ_MASK \<noteq> 0 \<longleftrightarrow> (\<exists>i. 16 \<le> i \<and> i < 20 \<and> bit pc i)"
    unfolding and_zero_iff by (auto simp: HARDIRQ_MASK_def HARDIRQ_SHIFT_def SOFTIRQ_SHIFT_def IRQ_MASK_mask bit_simps)
  have so: "bit SOFTIRQ_OFFSET i \<longleftrightarrow> i = 8" for i
    unfolding SOFTIRQ_OFFSET_def SOFTIRQ_SHIFT_def bit_push_bit_iff bit_1_iff by auto
  have o: "(pc AND SOFTIRQ_MASK) AND SOFTIRQ_OFFSET \<noteq> 0 \<longleftrightarrow> bit pc 8"
    unfolding and_zero_iff by (auto simp: SOFTIRQ_MASK_def so SOFTIRQ_SHIFT_def IRQ_MASK_mask bit_simps)
  have "16 \<le> i \<and> i < 24 \<longleftrightarrow> (20 \<le> i \<and> i < 24) \<or> (16 \<le> i \<and> i < 20)" for i :: nat
    by auto
  then have "(\<exists>i. 16 \<le> i \<and> i < 24 \<and> bit pc i) \<longleftrightarrow> (\<exists>i. 20 \<le> i \<and> i < 24 \<and> bit pc i) \<or> (\<exists>i. 16 \<le> i \<and> i < 20 \<and> bit pc i)"
    by meson
  then show ?thesis
    using n h o unfolding in_task_count_def Let_def by argo
qed

section \<open>Handing over and starting a schedule\<close>

text \<open>
  C40: A schedule announced with a length of two to the thirty-first or more is accepted, cut to the capacity, but its announced length
  becomes negative, and the next installation of a breakpoint ends the process at an assertion.
\<close>

theorem oversized_schedule_is_fatal:
  assumes "tot s = 0" and "hook_addr (vmi_info s) \<noteq> 0" and "nr_cps < 8" and "0x80000000 \<le> nr_bps"
  shows "\<exists>t. qcsched_prepare s nr_bps nr_cps = (0, t) \<and> tot t = MAX_SCHEDPOINTS \<and>
    qcsched_install_breakpoint t c addr order fp = Fault Assert_fail"
proof -
  have big: "2 ^ 31 \<le> uint nr_bps" "uint nr_bps < 2 ^ 32"
    using assms(4) uint_bounded [of nr_bps] by (simp_all add: word_le_def)
  have "uint nr_bps div 2 ^ 31 = 1"
    using big by (intro int_div_pos_eq [of _ _ _ "uint nr_bps - 2 ^ 31"]) simp_all
  then have "bit (uint nr_bps) 31"
    by (simp add: bit_iff_odd)
  then have "int_of_u32 nr_bps < 0"
    by (simp add: int_of_u32_def sint_uint signed_take_bit_negative_iff)
  moreover have "\<not> nr_cps \<ge> word_of_int MAX_CPUS"
    using assms(3) by (simp add: MAX_CPUS_def not_le)
  moreover have "nr_bps > word_of_int MAX_SCHEDPOINTS"
    using assms(4) by (simp add: MAX_SCHEDPOINTS_def word_less_def word_le_def)
  ultimately show ?thesis
    using assms(1,2) by (simp add: qcsched_prepare_def qcsched_install_breakpoint_def upd_sched_def int_of_u32_def
        MAX_SCHEDPOINTS_def c_assert_def)
qed

theorem oversized_schedule_is_fatal_witness:
  "\<exists>t. qcsched_prepare (upd_vmi (\<lambda>v. v\<lparr>hook_addr := 0x1000\<rparr>) example_boot) 0x80000000 2 = (0, t) \<and>
    qcsched_install_breakpoint t 1 0x2000 0 0 = Fault Assert_fail"
  using oversized_schedule_is_fatal [of "upd_vmi (\<lambda>v. v\<lparr>hook_addr := 0x1000\<rparr>) example_boot" 2 "0x80000000" 1 "0x2000" 0 0]
  by (auto simp: upd_vmi_def boot_defs)

text \<open>
  C18: Activation is a barrier: it reports success only in a round in which every CPU of the schedule is ready, the schedule is
  complete and not used up, and it then leaves the calling CPU activated; while another CPU of the schedule is idle it answers \<^verbatim>\<open>-EAGAIN\<close> and does no more than mark the caller ready.
\<close>

theorem activation_is_a_barrier:
  "(qcsched_activate_breakpoint s c = Ok (0, t) \<longrightarrow>
      \<not> used (sched s) \<and> cpu_state (sched t) c = qcsched_cpu_activated \<and> sanitize_breakpoint (sched s) \<and>
      (\<forall>d\<in>set (cpus s). cpu_is_used s d \<and> d \<noteq> c \<longrightarrow> cpu_state (sched s) d \<noteq> qcsched_cpu_idle)) \<and>
   (\<not> used (sched s) \<and> \<not> qcsched_check_cpu_state s c qcsched_cpu_activated \<and> iothread_locked s \<and>
      (\<exists>d\<in>set (cpus s). cpu_is_used s d \<and> d \<noteq> c \<and> cpu_state (sched s) d = qcsched_cpu_idle) \<longrightarrow>
    qcsched_activate_breakpoint s c = Ok (ulong_of_int (- EAGAIN), qcsched_set_cpu_state s c qcsched_cpu_ready))"
proof -
  let ?r = "qcsched_set_cpu_state s c qcsched_cpu_ready"
  have r: "cpus ?r = cpus s" "cpu_is_used ?r = cpu_is_used s" "iothread_locked ?r = iothread_locked s"
    "qcsched_check_cpu_state ?r d qcsched_cpu_ready \<longleftrightarrow> d = c \<or> cpu_state (sched s) d \<noteq> qcsched_cpu_idle"
    "sanitize_breakpoint (sched ?r) = sanitize_breakpoint (sched s)" for d
    by (auto simp: qcsched_set_cpu_state_def upd_sched_def cpu_is_used_def check_cpu_state_simps sanitize_breakpoint_def)
  have err: "ulong_of_int (- EAGAIN) \<noteq> 0" "ulong_of_int (- EINVAL) \<noteq> 0"
    by (simp_all add: ulong_of_int_def errno_defs)
  have keep: "cpu_state (sched u) = cpu_state (sched v)" if "do_activate_breakpoint v c = Ok u" for u v
  proof -
    have i: "cpu_state (sched (sched_init_once v)) = cpu_state (sched v)"
      by (simp add: sched_init_once_def upd_sched_def Let_def split: option.splits)
    show ?thesis
      using that i kvm_insert_breakpoint_cpu_frame(1)
      by (force simp: do_activate_breakpoint_def Let_def upd_window_def c_assert_def kvm_frame_def split: if_splits prod.splits)
  qed
  show ?thesis
    using err keep
    by (auto simp: qcsched_activate_breakpoint_def Let_def r qcsched_check_all_cpu_state_def qcsched_cpu_transition_def
        list_all_iff g_assert_def upd_sched_def split: if_splits)
qed

theorem activation_is_a_barrier_witness:
  "qcsched_activate_breakpoint (upd_sched (\<lambda>q. q\<lparr>nr_cpus := 2\<rparr>) (example_boot\<lparr>iothread_locked := True\<rparr>)) 1 =
    Ok (ulong_of_int (- EAGAIN),
      qcsched_set_cpu_state (upd_sched (\<lambda>q. q\<lparr>nr_cpus := 2\<rparr>) (example_boot\<lparr>iothread_locked := True\<rparr>)) 1 qcsched_cpu_ready)"
  by (rule activation_is_a_barrier [THEN conjunct2, rule_format])
    (simp add: upd_sched_def boot_defs check_cpu_state_simps cpu_is_used_def)

text \<open>
  A hook left in the table of a CPU makes its next activation end the process: the insertion answers \<^verbatim>\<open>-EEXIST\<close>, and the
  caller accepts nothing but success.
\<close>

lemma stale_hook_is_fatal:
  assumes "hw_wf s c" and "hook_addr (vmi_info s) \<in> hw_addrs s c" and "c \<noteq> 0"
    and "\<exists>i. 0 \<le> i \<and> i < tot s \<and> e_cpu (entry s i) = c"
  shows "do_activate_breakpoint s c = Fault Assert_fail"
proof -
  let ?i = "sched_init_once s"
  let ?v = "\<lambda>k. upd_window c (\<lambda>w. w\<lparr>w_total := w_total w + k\<rparr>) ?i"
  have i: "entries (sched ?i) = entries (sched s)" "tot ?i = tot s" "vmi_info ?i = vmi_info s" "hw_breakpoint ?i = hw_breakpoint s"
    by (simp_all add: sched_init_once_def upd_sched_def Let_def split: option.splits)
  have "filter (\<lambda>i. e_cpu (entry ?i i) = c) [0..tot ?i - 1] \<noteq> []"
    using assms(4) i by (auto simp: filter_empty_conv)
  moreover have "hw_wf (?v k) c" "hook_addr (vmi_info s) \<in> hw_addrs (?v k) c" for k
    using assms(1,2) hw_cong [of ?i c s] i(4) by simp_all
  then have "kvm_insert_breakpoint_cpu (?v k) c (hook_addr (vmi_info s)) 1 GDB_BREAKPOINT_HW = (- EEXIST, ?v k)" for k
    using hwbp.ins_dup [of "?v k" c "hook_addr (vmi_info s)"]
    by (simp add: kvm_insert_breakpoint_cpu_def errno_defs GDB_BREAKPOINT_HW_def GDB_BREAKPOINT_SW_def)
  ultimately show ?thesis
    using assms(3) i(3) by (simp add: do_activate_breakpoint_def Let_def c_assert_def errno_defs)
qed

text \<open>An installation with a negative order indexes the entries below their start.\<close>

lemma negative_order_out_of_bounds:
  assumes "order < 0" and "0 < tot s" and "tot s \<le> orig_nr_bps (sched s)" and "cpu_state (sched s) c = qcsched_cpu_idle"
  shows "qcsched_install_breakpoint s c addr order fp = Fault Out_of_bounds"
  using assms by (simp add: qcsched_install_breakpoint_def check_cpu_state_simps c_assert_def)

section \<open>The watchdog\<close>



lemma upd_record_simps [simp]:
  "RIP (upd_record c f s) d = RIP s d" "vmi_info (upd_record c f s) = vmi_info s"
  "last_breakpoint (sched (upd_record c f s)) d = (if d = c then f (last_breakpoint (sched s) c) else last_breakpoint (sched s) d)"
  "upd_record c f (upd_record c g s) = upd_record c (f \<circ> g) s"
  by (simp_all add: upd_record_def upd_sched_def)




section \<open>The trampoline\<close>


definition example_tramp :: tstate where
  "example_tramp = \<lparr>base = example_armed, trampolines = \<lambda>_. zero_trampoline\<rparr>"


section \<open>Recorded locks\<close>

definition held :: "qcsched_vmi_lock_info \<Rightarrow> qcsched_vmi_lock set" where
  "held li = acquired li ` {0..<lock_count li}"

definition locks_ok :: "qcsched_vmi_lock_info \<Rightarrow> bool" where
  "locks_ok li \<longleftrightarrow> 0 \<le> lock_count li \<and> lock_count li \<le> MAX_LOCKS \<and> inj_on (acquired li) {0..<lock_count li}"

lemma duplicated_held: "qcsched_vmi_lock_info_duplicated li l \<longleftrightarrow> l \<in> held li"
  by (auto simp: qcsched_vmi_lock_info_duplicated_def held_def list_ex_iff)

lemma locks_acquired:
  assumes "locks_ok li" and "lock_count li < MAX_LOCKS" and "l \<notin> held li"
  shows "locks_ok (lock_acquired li l)" and "held (lock_acquired li l) = insert l (held li)"
proof -
  have "{0..<lock_count li + 1} = insert (lock_count li) {0..<lock_count li}"
    using assms(1) by (auto simp: locks_ok_def)
  then show "locks_ok (lock_acquired li l)" and "held (lock_acquired li l) = insert l (held li)"
    using assms by (auto simp: locks_ok_def held_def lock_acquired_def inj_on_def)
qed

lemma locks_released:
  assumes "locks_ok li"
  shows "locks_ok (lock_released li a)" and "l \<in> held li \<Longrightarrow> lockdep_addr l = a \<Longrightarrow>
    \<exists>m\<in>held li. lockdep_addr m = a \<and> held (lock_released li a) = held li - {m}"
proof -
  let ?n = "lock_count li" and ?q = "acquired li"
  let ?f = "List.find (\<lambda>i. a = lockdep_addr (?q i)) [0..?n - 1]"
  have inj: "inj_on ?q {0..<?n}" using assms by (simp add: locks_ok_def)
  have step: "locks_ok (lock_released li a) \<and> held (lock_released li a) = held li - {?q i}" if i: "?f = Some i" for i
  proof -
    have r: "lock_released li a = li\<lparr>acquired := ?q(i := ?q (?n - 1)), lock_count := ?n - 1\<rparr>"
      using i by (simp add: lock_released_def)
    have b: "0 \<le> i" "i < ?n" using i by (auto simp: find_upto_Some)
    let ?g = "\<lambda>k. if k = i then ?n - 1 else k"
    have g: "(?q(i := ?q (?n - 1))) k = ?q (?g k)" "?g k \<in> {0..<?n} - {i} \<or> i = ?n - 1" if "k \<in> {0..<?n - 1}" for k
      using that b by auto
    have img: "?g ` {0..<?n - 1} = {0..<?n} - {i}"
    proof
      show "?g ` {0..<?n - 1} \<subseteq> {0..<?n} - {i}" using b by auto
      show "{0..<?n} - {i} \<subseteq> ?g ` {0..<?n - 1}"
      proof
        fix x assume x: "x \<in> {0..<?n} - {i}"
        show "x \<in> ?g ` {0..<?n - 1}"
        proof (cases "x = ?n - 1")
          case True
          then show ?thesis using x b by (intro image_eqI [of _ _ i]) auto
        next
          case False
          then show ?thesis using x by (intro image_eqI [of _ _ x]) auto
        qed
      qed
    qed
    have "held (lock_released li a) = ?q ` (?g ` {0..<?n - 1})"
      unfolding held_def r by (auto simp: image_image)
    also have "\<dots> = held li - {?q i}"
      unfolding img held_def using inj b by (auto simp: inj_on_def)
    finally have h: "held (lock_released li a) = held li - {?q i}" .
    have "inj_on ?g {0..<?n - 1}" using b by (auto simp: inj_on_def)
    then have "inj_on (?q \<circ> ?g) {0..<?n - 1}"
      by (rule comp_inj_on) (use img inj in \<open>auto intro: inj_on_subset\<close>)
    then have "inj_on (?q(i := ?q (?n - 1))) {0..<?n - 1}"
      by (rule inj_on_cong [THEN iffD1, rotated]) auto
    then show ?thesis
      using h b assms by (simp add: r locks_ok_def)
  qed
  show "locks_ok (lock_released li a)"
    using step assms by (cases ?f) (auto simp: lock_released_def)
  show "\<exists>m\<in>held li. lockdep_addr m = a \<and> held (lock_released li a) = held li - {m}" if "l \<in> held li" "lockdep_addr l = a"
  proof -
    have "?f \<noteq> None" using that by (auto simp: find_None_iff held_def)
    then obtain i where i: "?f = Some i" by auto
    then have "?q i \<in> held li" "lockdep_addr (?q i) = a" by (auto simp: find_upto_Some held_def)
    then show ?thesis using step [OF i] by blast
  qed
qed

text \<open>
  C35: Recording a lock that is not recorded yet and releasing it again gives back the set of recorded locks, as long as there is room and no
  other recorded lock has its address; in between the set has exactly the new lock more.
\<close>

theorem lock_acquire_release:
  assumes "locks_ok li" and "lock_count li < MAX_LOCKS" and "\<forall>m\<in>held li. lockdep_addr m \<noteq> lockdep_addr l"
  shows "held (lock_acquired li l) = insert l (held li) \<and>
    held (lock_released (lock_acquired li l) (lockdep_addr l)) = held li \<and>
    locks_ok (lock_released (lock_acquired li l) (lockdep_addr l))"
proof -
  have l: "l \<notin> held li" using assms(3) by auto
  note a = locks_acquired [OF assms(1,2) l]
  obtain m where m: "m \<in> held (lock_acquired li l)" "lockdep_addr m = lockdep_addr l"
    "held (lock_released (lock_acquired li l) (lockdep_addr l)) = held (lock_acquired li l) - {m}"
    using locks_released(2) [OF a(1), of l "lockdep_addr l"] a(2) by auto
  then have "m = l" using assms(3) a(2) by auto
  then show ?thesis
    using m(3) l a locks_released(1) [OF a(1)] by auto
qed

theorem lock_acquire_release_witness:
  "held (lock_released (lock_acquired (lock_info zero_vmi 0) \<lparr>lockdep_addr = 8, lock_ip = 0, trylock = 0, lock_read = 0\<rparr>) 8) = {}"
proof -
  have e: "held (lock_info zero_vmi 0) = {}" "locks_ok (lock_info zero_vmi 0)" "lock_count (lock_info zero_vmi 0) < MAX_LOCKS"
    by (simp_all add: held_def locks_ok_def zero_vmi_def MAX_LOCKS_def)
  show ?thesis
    using lock_acquire_release [OF e(2,3), of "\<lparr>lockdep_addr = 8, lock_ip = 0, trylock = 0, lock_read = 0\<rparr>"] e(1) by simp
qed


lemma t_yield_vmi: "t_yield_turn_from t c n = Ok u \<Longrightarrow> vmi_info (base u) = vmi_info (base t)"
proof -
  have w: "vmi_info (base v) = vmi_info (base u)" if "foreach cs (\<lambda>c t. if \<not> trampoline_task_kidnapped t c \<or> c = c0 then Ok t
      else trampoline_wake_cpu_up t c0 c) u = Ok v" for cs c0 u v
    using that
  proof (induction cs arbitrary: u)
    case (Cons d cs)
    then obtain x where x: "(if \<not> trampoline_task_kidnapped u d \<or> d = c0 then Ok u else trampoline_wake_cpu_up u c0 d) = Ok x"
      "vmi_info (base v) = vmi_info (base x)"
      by auto
    then have "vmi_info (base x) = vmi_info (base u)"
      using kvm_insert_breakpoint_cpu_frame(1)
      by (force simp: trampoline_wake_cpu_up_def c_assert_def kvm_frame_def split: if_splits prod.splits)
    then show ?case using x(2) by simp
  qed simp
  have k: "vmi_info (base v) = vmi_info (base u)" if "t_kidnap_task u c = Ok v" for u v
    using that by (auto simp: t_kidnap_task_def Let_def c_assert_def qcsched_arm_selfescape_timer_def upd_info_def
        trampoline_kidnap_task_def upd_trampoline_def upd_base_def jump_into_trampoline_def upd_cpu_def split: if_splits)
  assume "t_yield_turn_from t c n = Ok u"
  then obtain s v where "hand_over_baton_from (base t) c n = Ok s" "t_kidnap_task (t\<lparr>base := s\<rparr>) c = Ok v"
    "t_wake_others_up v c = Ok u"
    by (auto simp: t_yield_turn_from_def)
  moreover from this(1) have "vmi_info s = vmi_info (base t)"
    by (auto simp: hand_over_baton_from_def forward_focus_def Let_def upd_sched_def split: if_splits)
  ultimately show ?thesis
    using k [of "t\<lparr>base := s\<rparr>" v] w [of "cpus (base v)" c v u] by (simp add: t_wake_others_up_def)
qed

text \<open>
  C34: In the build that records locks, every announcement of the guest keeps the records of all CPUs well-formed: at most 128 locks, none twice.
\<close>

theorem recorded_locks_well_formed:
  assumes "\<forall>d. locks_ok (lock_info (vmi_info (base t)) d)"
    and "t_vmi_lock_acquire t c addr try_lock rd ip = Ok u \<or> t_vmi_lock_release t c addr = Ok u"
  shows "\<forall>d. locks_ok (lock_info (vmi_info (base u)) d)"
proof -
  let ?li = "lock_info (vmi_info (base t)) c"
  let ?l = "\<lparr>lockdep_addr = addr, lock_ip = ip, trylock = try_lock, lock_read = rd\<rparr>"
  have acq: "vmi_info (base u) = vmi_info (base t) \<or>
      lock_count ?li < MAX_LOCKS \<and> ?l \<notin> held ?li \<and>
      vmi_info (base u) = (vmi_info (base t))\<lparr>lock_info := (lock_info (vmi_info (base t)))(c := lock_acquired ?li ?l)\<rparr>"
    if "t_vmi_lock_acquire t c addr try_lock rd ip = Ok u"
    using that by (auto simp: t_vmi_lock_acquire_def Let_def upd_base_def upd_vmi_def duplicated_held dest!: t_yield_vmi split: if_splits)
  have rel: "vmi_info (base u) = vmi_info (base t) \<or>
      vmi_info (base u) = (vmi_info (base t))\<lparr>lock_info := (lock_info (vmi_info (base t)))(c := lock_released ?li addr)\<rparr>"
    if "t_vmi_lock_release t c addr = Ok u"
    using that by (auto simp: t_vmi_lock_release_def Let_def upd_base_def upd_vmi_def split: if_splits)
  show ?thesis
    using assms(2) acq rel assms(1) locks_acquired(1) [of ?li ?l] locks_released(1) [of ?li addr] by auto
qed

theorem recorded_locks_well_formed_witness:
  "\<forall>d. locks_ok (lock_info (vmi_info (base (upd_base (upd_vmi (\<lambda>v. v\<lparr>lock_info :=
     (lock_info v)(1 := lock_released (lock_info v 1) 8)\<rparr>)) example_tramp))) d)"
proof (rule recorded_locks_well_formed [of example_tramp 1 8 0 0 0], goal_cases)
  case 1
  then show ?case by (simp add: example_tramp_def armed_defs locks_ok_def MAX_LOCKS_def)
next
  case 2
  have "qcsched_vmi_running_context_being_scheduled example_armed 1 True = Ok True"
    by (simp add: qcsched_vmi_running_context_being_scheduled_def armed_reads armed_entry vmi_scheduling_subject_def
        vmi_same_task_def qcsched_vmi_in_task_def example_entry_def upto_rec1 in_task_count_def)
  then have "t_vmi_lock_release example_tramp 1 8 = Ok (upd_base (upd_vmi (\<lambda>v. v\<lparr>lock_info :=
     (lock_info v)(1 := lock_released (lock_info v 1) 8)\<rparr>)) example_tramp)"
    by (simp add: t_vmi_lock_release_def example_tramp_def check_cpu_state_simps)
  then show ?case by simp
qed

end
