(* ===== verification/Ssb_Pass.thy ===== *)
theory Ssb_Pass
  imports Qcs_Prelude "HOL-Library.Sublist"
begin

text \<open>
  The compiler pass of \<^verbatim>\<open>SoftStoreBufferPass/pass/SSBPass.cpp\<close>: which instructions of a function it
  instruments, with which callbacks, in which order, and the two-pass handling of the list of
  instrumented functions. A function is its list of basic blocks. What LLVM answers about a value is
  an argument (\<open>llvm\<close>), since LLVM is not part of the repository.
\<close>

section \<open>Program representation\<close>

record global =
  gv_name :: string
  gv_section :: "string option"
  gv_constant :: bool

datatype ir_value = GlobalVariable global | GetElementPtr ir_value nat | AllocaAddr nat | OtherValue nat

datatype intrinsic =
  assume_intrinsic | sideeffect | dbg_declare | dbg_value | dbg_label | invariant_start | invariant_end
| lifetime_start | lifetime_end | objectsize | ptr_annotation | var_annotation | pseudoprobe
| mem_intrinsic | other_intrinsic

record call =
  called_function :: "string option"
  indirect_call :: bool
  inline_asm :: "(string \<times> bool) option"
  intrinsic_id :: "intrinsic option"

datatype instr =
  LoadInst ir_value bool bool
| StoreInst ir_value bool bool
| AtomicRMWInst
| AtomicCmpXchgInst
| FenceInst
| CallInst call
| InvokeInst call
| ReturnInst
| PHINode
| AllocaInst bool
| EHPad nat
| OtherInst nat

text \<open>
  The two flags of a load or store are \<^verbatim>\<open>isAtomic()\<close> and whether its synchronisation scope is
  \<^verbatim>\<open>SingleThread\<close>; the flag of an alloca is \<^verbatim>\<open>isStaticAlloca()\<close>; an inline assembly
  is its text and \<^verbatim>\<open>hasSideEffects()\<close>.
\<close>

record ir_function =
  fn_name :: string
  fn_section :: string
  fn_weak :: bool
  fn_no_ssb :: bool
  fn_blocks :: "instr list list"

record llvm =
  stripInBoundsOffsets :: "ir_value \<Rightarrow> ir_value"
  getUnderlyingObject :: "ir_value \<Rightarrow> ir_value"
  PointerMayBeCaptured :: "ir_value \<Rightarrow> bool"
  getPointerAddressSpace :: "ir_value \<Rightarrow> nat"
  isSwiftError :: "ir_value \<Rightarrow> bool"
  getTypeStoreSizeInBits :: "ir_value \<Rightarrow> nat"
  getInstrProfSectionName :: string

record options =
  ClInstrumentOutofScopeCalls :: bool
  ClFlushEntryOnly :: bool
  ClInstrumentFlush :: bool
  ClMemoryModel :: string
  ClArchitecture :: string
  ClSecondPass :: bool

datatype MemoryModel = TSO | PSO

datatype Architecture = X86_64 | Aarch64

definition TargetMemoryModel :: "options \<Rightarrow> MemoryModel" where
  "TargetMemoryModel opts = (if ClMemoryModel opts = ''TSO'' then TSO else PSO)"

definition TargetArchitecture :: "options \<Rightarrow> Architecture" where
  "TargetArchitecture opts = (if ClArchitecture opts = ''x86_64'' then X86_64 else Aarch64)"

section \<open>Callbacks\<close>

datatype callback = SSBLoad nat | SSBStore nat | SSBFlush | SSBLfence | SSBRetCheck | SSBFuncEntry

definition kNumberOfAccessSizes :: nat where "kNumberOfAccessSizes = 5"

fun utostr :: "nat \<Rightarrow> string" where
  "utostr n = (if n < 10 then [char_of (48 + n)] else utostr (n div 10) @ [char_of (48 + n mod 10)])"

declare utostr.simps [simp del]

primrec callback_name :: "MemoryModel \<Rightarrow> callback \<Rightarrow> string" where
  "callback_name mm (SSBStore i) = ''__ssb_'' @ (if mm = TSO then ''tso'' else ''pso'') @ ''_store'' @ utostr (2 ^ i)"
| "callback_name mm (SSBLoad i) = ''__ssb_'' @ (if mm = TSO then ''tso'' else ''pso'') @ ''_load'' @ utostr (2 ^ i)"
| "callback_name mm SSBFlush = ''__ssb_'' @ (if mm = TSO then ''tso'' else ''pso'') @ ''_flush''"
| "callback_name mm SSBLfence = ''__ssb_'' @ (if mm = TSO then ''tso'' else ''pso'') @ ''_lfence''"
| "callback_name mm SSBRetCheck = ''__ssb_'' @ (if mm = TSO then ''tso'' else ''pso'') @ ''_retchk''"
| "callback_name mm SSBFuncEntry = ''__ssb_'' @ (if mm = TSO then ''tso'' else ''pso'') @ ''_funcentry''"

section \<open>Classification of instructions\<close>

definition shouldInstrumentReadWriteFromAddress :: "llvm \<Rightarrow> ir_value \<Rightarrow> bool" where
  "shouldInstrumentReadWriteFromAddress L addr =
     (let addr = stripInBoundsOffsets L addr;
          excluded = (case addr of
            GlobalVariable gv \<Rightarrow>
              (case gv_section gv of None \<Rightarrow> False | Some sec \<Rightarrow> suffix (getInstrProfSectionName L) sec) \<or>
              prefix ''__llvm_gcov'' (gv_name gv) \<or> prefix ''__llvm_gcda'' (gv_name gv)
          | _ \<Rightarrow> False)
      in if excluded then False
         else if getPointerAddressSpace L addr \<noteq> 0 then False
         else True)"

definition addrPointsToConstantData :: "ir_value \<Rightarrow> bool" where
  "addrPointsToConstantData addr =
     (let addr = (case addr of GetElementPtr base i \<Rightarrow> base | _ \<Rightarrow> addr)
      in case addr of GlobalVariable gv \<Rightarrow> gv_constant gv | _ \<Rightarrow> False)"

fun pointer_operand :: "instr \<Rightarrow> ir_value" where
  "pointer_operand (LoadInst a at st) = a"
| "pointer_operand (StoreInst a at st) = a"
| "pointer_operand i = OtherValue 0"

fun is_store :: "instr \<Rightarrow> bool" where
  "is_store (StoreInst a at st) = True"
| "is_store i = False"

definition isAtomic :: "instr \<Rightarrow> bool" where
  "isAtomic i = (case i of
     LoadInst a at st \<Rightarrow> at \<and> \<not> st
   | StoreInst a at st \<Rightarrow> at \<and> \<not> st
   | AtomicRMWInst \<Rightarrow> True
   | AtomicCmpXchgInst \<Rightarrow> True
   | FenceInst \<Rightarrow> True
   | _ \<Rightarrow> False)"

definition RMWBitOpsFunc :: "string list" where
  "RMWBitOpsFunc = [''test_and_set_bit'', ''test_and_clear_bit'', ''test_and_change_bit'', ''test_and_set_bit_lock'']"

definition isRMWBitOps :: "instr \<Rightarrow> bool" where
  "isRMWBitOps i = (case i of
     CallInst c \<Rightarrow> (case called_function c of
        None \<Rightarrow> False
      | Some f \<Rightarrow> list_ex (\<lambda>p. prefix p f) RMWBitOpsFunc)
   | _ \<Rightarrow> False)"

definition isMemBarrier :: "string \<Rightarrow> string list \<Rightarrow> bool" where
  "isMemBarrier asm barriers = list_ex (\<lambda>b. asm = b) barriers"

definition BarrierStrs :: "Architecture \<Rightarrow> string list" where
  "BarrierStrs arch = (case arch of
     X86_64 \<Rightarrow> [''lfence'', ''mfence'', ''sfence'']
   | Aarch64 \<Rightarrow> [''dmb ish'', ''dmb ishst'', ''dmb ishld''])"

definition isMemBarrierOfTargetArch :: "options \<Rightarrow> instr \<Rightarrow> bool" where
  "isMemBarrierOfTargetArch opts i = (case i of
     CallInst c \<Rightarrow> (case inline_asm c of
        Some (asm, effects) \<Rightarrow> effects \<and> isMemBarrier asm (BarrierStrs (TargetArchitecture opts))
      | None \<Rightarrow> False)
   | _ \<Rightarrow> False)"

definition IRQEntriesX86_64 :: "string list" where
  "IRQEntriesX86_64 =
     [''exc_divide_error'', ''exc_overflow'', ''exc_bounds'', ''exc_device_not_available'',
      ''exc_coproc_segment_overrun'', ''exc_spurious_interrupt_bug'', ''exc_coprocessor_error'',
      ''exc_simd_coprocessor_error'', ''iret_error'', ''exc_invalid_tss'', ''exc_segment_not_present'',
      ''exc_stack_segment'', ''exc_general_protection'', ''exc_alignment_check'', ''exc_invalid_op'',
      ''exc_int3'', ''exc_page_fault'', ''exc_machine_check'', ''exc_machine_check'',
      ''xenpv_exc_machine_check'', ''exc_nmi_noist'', ''exc_nmi'', ''xenpv_exc_nmi'', ''exc_debug'',
      ''exc_debug'', ''xenpv_exc_debug'', ''exc_double_fault'', ''xenpv_exc_double_fault'',
      ''exc_control_protection'', ''exc_vmm_communication'', ''exc_xen_hypervisor_callback'',
      ''exc_xen_unknown_trap'', ''exc_virtualization_exception'', ''common_interrupt'',
      ''spurious_interrupt'', ''sysvec_error_interrupt'', ''sysvec_spurious_apic_interrupt'',
      ''sysvec_apic_timer_interrupt'', ''sysvec_x86_platform_ipi'', ''sysvec_reschedule_ipi'',
      ''sysvec_irq_move_cleanup'', ''sysvec_reboot'', ''sysvec_call_function_single'',
      ''sysvec_call_function'', ''sysvec_threshold'', ''sysvec_deferred_error'', ''sysvec_thermal'',
      ''sysvec_irq_work'', ''sysvec_kvm_posted_intr_ipi'', ''sysvec_kvm_posted_intr_wakeup_ipi'',
      ''sysvec_kvm_posted_intr_nested_ipi'', ''sysvec_hyperv_callback'', ''sysvec_hyperv_reenlightenment'',
      ''sysvec_hyperv_stimer0'', ''sysvec_acrn_hv_callback'', ''sysvec_xen_hvm_callback'',
      ''sysvec_kvm_asyncpf_interrupt'']"

definition SyscallEntryX86_64 :: string where "SyscallEntryX86_64 = ''do_syscall_64''"

definition IRQEntriesArm64 :: "string list" where
  "IRQEntriesArm64 =
     [''handle_IRQ'', ''do_page_fault'', ''do_translation_fault'', ''do_alignment_fault'', ''do_bad'']"

definition SyscallEntryArm64 :: string where "SyscallEntryArm64 = ''invoke_syscall''"

definition isEntry :: "ir_function \<Rightarrow> string list \<Rightarrow> bool" where
  "isEntry F entries = list_ex (\<lambda>e. fn_name F = e) entries"

definition isHardIRQEntryOfTargetArch :: "options \<Rightarrow> ir_function \<Rightarrow> bool" where
  "isHardIRQEntryOfTargetArch opts F =
     (if TargetArchitecture opts = X86_64 then isEntry F IRQEntriesX86_64 else isEntry F IRQEntriesArm64)"

definition isSoftIRQEntryOfTargetArch :: "ir_function \<Rightarrow> bool" where
  "isSoftIRQEntryOfTargetArch F \<longleftrightarrow> fn_section F = ''.softirqentry.text''"

definition isIRQEntryOfTargetArch :: "options \<Rightarrow> ir_function \<Rightarrow> bool" where
  "isIRQEntryOfTargetArch opts F \<longleftrightarrow> isHardIRQEntryOfTargetArch opts F \<or> isSoftIRQEntryOfTargetArch F"

definition isSyscallEntryOfTargetArch :: "options \<Rightarrow> ir_function \<Rightarrow> bool" where
  "isSyscallEntryOfTargetArch opts F =
     (if TargetArchitecture opts = X86_64 then isEntry F [SyscallEntryX86_64] else isEntry F [SyscallEntryArm64])"

definition isInterestingLoadStore :: "instr \<Rightarrow> bool" where
  "isInterestingLoadStore i = (case i of
     LoadInst a at st \<Rightarrow> \<not> at \<and> \<not> st
   | StoreInst a at st \<Rightarrow> \<not> at \<and> \<not> st
   | _ \<Rightarrow> False)"

definition UD2 :: string where "UD2 = ''.byte 0x0f, 0x0''"

definition isBUG_X86_64 :: "instr \<Rightarrow> bool" where
  "isBUG_X86_64 i = (case i of
     CallInst c \<Rightarrow> (case inline_asm c of Some (asm, effects) \<Rightarrow> sublist UD2 asm | None \<Rightarrow> False)
   | _ \<Rightarrow> False)"

definition isBUG :: "options \<Rightarrow> instr \<Rightarrow> bool" where
  "isBUG opts i = (if TargetArchitecture opts = X86_64 then isBUG_X86_64 i else False)"

section \<open>Out-of-scope calls\<close>

type_synonym InstrumentedFunctionList = "string set"

definition isIndirectCall :: "call \<Rightarrow> bool" where
  "isIndirectCall c = indirect_call c"

definition isNotInstrumentedCall :: "call \<Rightarrow> InstrumentedFunctionList \<Rightarrow> bool" where
  "isNotInstrumentedCall c IFL = (case called_function c of Some f \<Rightarrow> f \<notin> IFL | None \<Rightarrow> True)"

definition isAssumeLikeIntrinsic :: "intrinsic \<Rightarrow> bool" where
  "isAssumeLikeIntrinsic i =
     list_ex (\<lambda>j. i = j)
       [assume_intrinsic, sideeffect, dbg_declare, dbg_value, dbg_label, invariant_start, invariant_end,
        lifetime_start, lifetime_end, objectsize, ptr_annotation, var_annotation]"

definition calleeFunctionStartsWith :: "call \<Rightarrow> string \<Rightarrow> bool" where
  "calleeFunctionStartsWith c nm = (case called_function c of None \<Rightarrow> False | Some f \<Rightarrow> prefix nm f)"

definition isKasanCheckReadWrite :: "call \<Rightarrow> bool" where
  "isKasanCheckReadWrite c \<longleftrightarrow>
     calleeFunctionStartsWith c ''__kasan_check_read'' \<or> calleeFunctionStartsWith c ''__kasan_check_write''"

definition isKmemcovTraceCallback :: "call \<Rightarrow> bool" where
  "isKmemcovTraceCallback c \<longleftrightarrow>
     calleeFunctionStartsWith c ''sanitize_memcov_trace_load'' \<or>
     calleeFunctionStartsWith c ''sanitize_memcov_trace_store''"

definition isKssbHistoryCallback :: "call \<Rightarrow> bool" where
  "isKssbHistoryCallback c \<longleftrightarrow> calleeFunctionStartsWith c ''kssb_record_history''"

definition isAnnotatedInlineAsm :: "call \<Rightarrow> bool" where
  "isAnnotatedInlineAsm c = (case inline_asm c of
     Some (asm, effects) \<Rightarrow> sublist ''no kssb'' asm \<or> length asm = 0
   | None \<Rightarrow> False)"

definition isIntrinsicImplyingBarrier :: "call \<Rightarrow> bool" where
  "isIntrinsicImplyingBarrier c = (case called_function c of None \<Rightarrow> False | Some f \<Rightarrow> prefix ''llvm.gc'' f)"

definition isOutofScopeCall :: "call \<Rightarrow> InstrumentedFunctionList \<Rightarrow> bool" where
  "isOutofScopeCall c IFL =
     (if IFL = {} then False
      else case intrinsic_id c of
        Some ii \<Rightarrow> if isAssumeLikeIntrinsic ii then False else isIntrinsicImplyingBarrier c
      | None \<Rightarrow>
          if isKasanCheckReadWrite c then False
          else if isKmemcovTraceCallback c then False
          else if isKssbHistoryCallback c then False
          else if isAnnotatedInlineAsm c then False
          else isIndirectCall c \<or> isNotInstrumentedCall c IFL)"

section \<open>Collecting instructions\<close>

text \<open>An instruction is referred to by its block and its place in it, where the code has a pointer.\<close>

type_synonym iref = "nat \<times> nat"
type_synonym cell = "iref \<times> instr"

record collected =
  AllLoadsAndStores :: "cell list"
  LocalLoadsAndStores :: "cell list"
  AtomicAccesses :: "cell list"
  MemIntrinCalls :: "cell list"
  MemBarrier :: "cell list"
  AllReturns :: "cell list"
  OutofScopeCalls :: "cell list"
  HasCalls :: bool

definition nothing_collected :: collected where
  "nothing_collected =
     \<lparr>AllLoadsAndStores = [], LocalLoadsAndStores = [], AtomicAccesses = [], MemIntrinCalls = [],
      MemBarrier = [], AllReturns = [], OutofScopeCalls = [], HasCalls = False\<rparr>"

text \<open>The body of the loop of \<open>chooseInstructionsToInstrument\<close>: a \<^verbatim>\<open>continue\<close> is \<open>False\<close>.\<close>

definition chosen :: "llvm \<Rightarrow> instr \<Rightarrow> bool" where
  "chosen L i =
     (let addr = pointer_operand i
      in if \<not> shouldInstrumentReadWriteFromAddress L addr then False
         else if \<not> is_store i \<and> addrPointsToConstantData addr then False
         else case getUnderlyingObject L addr of
                AllocaAddr k \<Rightarrow> PointerMayBeCaptured L addr
              | _ \<Rightarrow> True)"

definition chooseInstructionsToInstrument :: "llvm \<Rightarrow> collected \<Rightarrow> collected" where
  "chooseInstructionsToInstrument L c =
     c\<lparr>AllLoadsAndStores := AllLoadsAndStores c @ filter (\<lambda>x. chosen L (snd x)) (rev (LocalLoadsAndStores c)),
       LocalLoadsAndStores := []\<rparr>"

definition visit_call :: "options \<Rightarrow> llvm \<Rightarrow> InstrumentedFunctionList \<Rightarrow> cell \<Rightarrow> call \<Rightarrow> collected \<Rightarrow> bool \<times> collected" where
  "visit_call opts L IFL x cl c =
     (let c = (if isOutofScopeCall cl IFL then c\<lparr>OutofScopeCalls := OutofScopeCalls c @ [x]\<rparr> else c);
          c = (if intrinsic_id cl = Some mem_intrinsic then c\<lparr>MemIntrinCalls := MemIntrinCalls c @ [x]\<rparr> else c);
          c = (if isMemBarrierOfTargetArch opts (snd x) then c\<lparr>MemBarrier := MemBarrier c @ [x]\<rparr> else c);
          c = chooseInstructionsToInstrument L (c\<lparr>HasCalls := True\<rparr>)
      in (isBUG opts (snd x), c))"

definition visit_inst :: "options \<Rightarrow> llvm \<Rightarrow> InstrumentedFunctionList \<Rightarrow> cell \<Rightarrow> collected \<Rightarrow> bool \<times> collected" where
  "visit_inst opts L IFL x c =
     (if isAtomic (snd x) \<or> isRMWBitOps (snd x)
      then (False, c\<lparr>AtomicAccesses := AtomicAccesses c @ [x]\<rparr>)
      else if isInterestingLoadStore (snd x)
      then (False, c\<lparr>LocalLoadsAndStores := LocalLoadsAndStores c @ [x]\<rparr>)
      else if snd x = ReturnInst then (False, c\<lparr>AllReturns := AllReturns c @ [x]\<rparr>)
      else case snd x of
             CallInst cl \<Rightarrow> visit_call opts L IFL x cl c
           | InvokeInst cl \<Rightarrow> visit_call opts L IFL x cl c
           | _ \<Rightarrow> (False, c))"

fun visit_block :: "options \<Rightarrow> llvm \<Rightarrow> InstrumentedFunctionList \<Rightarrow> cell list \<Rightarrow> collected \<Rightarrow> collected" where
  "visit_block opts L IFL [] c = chooseInstructionsToInstrument L c"
| "visit_block opts L IFL (x # xs) c =
     (case visit_inst opts L IFL x c of
        (stop, c) \<Rightarrow> if stop then chooseInstructionsToInstrument L c else visit_block opts L IFL xs c)"

definition cells :: "ir_function \<Rightarrow> cell list list" where
  "cells F = map (\<lambda>(b, is). map (\<lambda>(k, i). ((b, k), i)) (enumerate 0 is)) (enumerate 0 (fn_blocks F))"

definition collect :: "options \<Rightarrow> llvm \<Rightarrow> InstrumentedFunctionList \<Rightarrow> ir_function \<Rightarrow> collected" where
  "collect opts L IFL F = fold (visit_block opts L IFL) (cells F) nothing_collected"

section \<open>Instrumenting\<close>

text \<open>
  What the pass adds to an instruction: the guarded calls in front of it, in the order they run, each
  group behind its own test of \<^verbatim>\<open>__ssb_do_emulate\<close> (the flag says whether the return address is
  passed), and for a load or store the callback that replaces it on the slow path.
\<close>

record site =
  guards :: "(callback list \<times> bool) list"
  emulation :: "callback option"

type_synonym plan = "iref \<Rightarrow> site"

definition bare_site :: site where "bare_site = \<lparr>guards = [], emulation = None\<rparr>"

definition instrumentHelper :: "iref \<Rightarrow> callback list \<Rightarrow> bool \<Rightarrow> plan \<Rightarrow> plan" where
  "instrumentHelper r callbacks requireReturnAddress p =
     p(r := (p r)\<lparr>guards := guards (p r) @ [(callbacks, requireReturnAddress)]\<rparr>)"

definition instrumentFlush :: "options \<Rightarrow> cell \<Rightarrow> plan \<Rightarrow> bool \<times> plan" where
  "instrumentFlush opts x p =
     (if \<not> ClInstrumentFlush opts then (False, p)
      else (True, instrumentHelper (fst x) [SSBFlush, SSBLfence] False p))"

definition instrumentRetCheck :: "options \<Rightarrow> cell \<Rightarrow> plan \<Rightarrow> bool \<times> plan" where
  "instrumentRetCheck opts x p =
     (if \<not> ClInstrumentFlush opts then (False, p)
      else (True, instrumentHelper (fst x) [SSBRetCheck] True p))"

text \<open>
  The entry callback goes in front of the first instruction of the entry block as the block is then,
  so in front of the guards its original first instruction already has.
\<close>

definition instrumentFuncEntry :: "options \<Rightarrow> iref \<Rightarrow> plan \<Rightarrow> bool \<times> plan" where
  "instrumentFuncEntry opts r p =
     (if \<not> ClInstrumentFlush opts then (False, p)
      else (True, p(r := (p r)\<lparr>guards := ([SSBFuncEntry], True) # guards (p r)\<rparr>)))"

fun countTrailingZeros :: "nat \<Rightarrow> nat" where
  "countTrailingZeros n = (if n = 0 then 32 else if odd n then 0 else Suc (countTrailingZeros (n div 2)))"

declare countTrailingZeros.simps [simp del]

definition getMemoryAccessFuncIndex :: "llvm \<Rightarrow> ir_value \<Rightarrow> int" where
  "getMemoryAccessFuncIndex L addr =
     (let TypeSize = getTypeStoreSizeInBits L addr mod 2 ^ 32
      in if TypeSize \<noteq> 8 \<and> TypeSize \<noteq> 16 \<and> TypeSize \<noteq> 32 \<and> TypeSize \<noteq> 64 then - 1
         else int (countTrailingZeros (TypeSize div 8)))"

definition instrumentLoadOrStore :: "llvm \<Rightarrow> cell \<Rightarrow> plan \<Rightarrow> bool \<times> plan" where
  "instrumentLoadOrStore L x p =
     (let addr = pointer_operand (snd x)
      in if isSwiftError L addr then (False, p)
         else let idx = getMemoryAccessFuncIndex L addr
              in if idx < 0 then (False, p)
                 else (True, p(fst x := (p (fst x))\<lparr>emulation :=
                        Some (if is_store (snd x) then SSBStore (nat idx) else SSBLoad (nat idx))\<rparr>)))"

text \<open>\<^verbatim>\<open>for (auto Inst : list) Res |= f(Inst)\<close>\<close>

fun instrument_each :: "(cell \<Rightarrow> plan \<Rightarrow> bool \<times> plan) \<Rightarrow> cell list \<Rightarrow> bool \<times> plan \<Rightarrow> bool \<times> plan" where
  "instrument_each f [] rp = rp"
| "instrument_each f (x # xs) (res, p) = (case f x p of (r, p) \<Rightarrow> instrument_each f xs (res \<or> r, p))"

definition first_non_phi :: "instr list \<Rightarrow> nat" where
  "first_non_phi bb = length (takeWhile (\<lambda>i. i = PHINode) bb)"

definition skippable :: "instr \<Rightarrow> bool" where
  "skippable i = (case i of
     AllocaInst static \<Rightarrow> static
   | CallInst c \<Rightarrow> intrinsic_id c \<in> {Some dbg_declare, Some dbg_value, Some dbg_label, Some pseudoprobe}
   | _ \<Rightarrow> False)"

definition is_eh_pad :: "instr \<Rightarrow> bool" where
  "is_eh_pad i = (case i of EHPad k \<Rightarrow> True | _ \<Rightarrow> False)"

definition getFirstNonPHIOrDbgOrAlloca :: "bool \<Rightarrow> instr list \<Rightarrow> nat" where
  "getFirstNonPHIOrDbgOrAlloca isEntryBlock bb =
     (let k = first_non_phi bb
      in if k = length bb then length bb
         else let k = (if is_eh_pad (bb ! k) then k + 1 else k)
              in if isEntryBlock then k + length (takeWhile skippable (drop k bb)) else k)"

definition instrumentFlushOnly :: "options \<Rightarrow> ir_function \<Rightarrow> bool \<Rightarrow> bool \<times> plan" where
  "instrumentFlushOnly opts F DoInstrument =
     (if \<not> DoInstrument then (False, \<lambda>_. bare_site)
      else let term = (0, length (hd (fn_blocks F)) - 1);
               p = snd (instrumentFlush opts (term, ReturnInst) (\<lambda>_. bare_site));
               returns = concat (map (\<lambda>(b, bb). map (\<lambda>i. (if b = 0 then term else (b, first_non_phi bb), i))
                           (filter (\<lambda>i. i = ReturnInst) bb)) (enumerate 0 (fn_blocks F)))
           in (True, snd (instrument_each (instrumentFlush opts) ((term, ReturnInst) # returns) (False, p))))"

section \<open>The list of instrumented functions\<close>

definition newline :: char where "newline = CHR 0x0A"

definition appendFunctionName :: "ir_function \<Rightarrow> string \<Rightarrow> string" where
  "appendFunctionName F file = (if fn_weak F then file else file @ fn_name F @ [newline])"

fun getlines :: "string \<Rightarrow> string \<Rightarrow> string list" where
  "getlines acc [] = (if acc = [] then [] else [acc])"
| "getlines acc (ch # cs) = (if ch = newline then (acc @ [ch]) # getlines [] cs else getlines (acc @ [ch]) cs)"

definition c_string :: "string \<Rightarrow> string" where
  "c_string cs = takeWhile (\<lambda>ch. ch \<noteq> CHR 0x00) cs"

definition read_IFL :: "options \<Rightarrow> string \<Rightarrow> InstrumentedFunctionList" where
  "read_IFL opts file =
     (if \<not> ClSecondPass opts then {}
      else set (map (\<lambda>line. c_string (butlast line)) (getlines [] file)))"

definition instrumentAll ::
  "options \<Rightarrow> llvm \<Rightarrow> InstrumentedFunctionList \<Rightarrow> ir_function \<Rightarrow> string \<Rightarrow> bool \<times> plan \<times> string" where
  "instrumentAll opts L IFL F file =
     (if fn_no_ssb F then (False, \<lambda>_. bare_site, file)
      else if fn_section F = ''.noinstr.text'' then (False, \<lambda>_. bare_site, file)
      else if \<not> ClSecondPass opts then (False, \<lambda>_. bare_site, appendFunctionName F file)
      else
        let c = collect opts L IFL F;
            rp = instrument_each (instrumentLoadOrStore L) (AllLoadsAndStores c) (False, \<lambda>_. bare_site);
            rp = instrument_each (instrumentFlush opts) (MemBarrier c) rp;
            rp = instrument_each (instrumentFlush opts) (AtomicAccesses c) rp;
            (res, p) = (if ClInstrumentOutofScopeCalls opts
                        then instrument_each (instrumentFlush opts) (OutofScopeCalls c) rp else rp);
            p = snd (instrumentFuncEntry opts (0, getFirstNonPHIOrDbgOrAlloca True (hd (fn_blocks F))) p);
            p = (if fn_name F \<noteq> ''pso_test_breakpoint''
                 then snd (instrument_each (instrumentRetCheck opts) (AllReturns c) (False, p)) else p)
        in (res \<or> HasCalls c, p, file))"

definition instrumentFunction ::
  "options \<Rightarrow> llvm \<Rightarrow> InstrumentedFunctionList \<Rightarrow> ir_function \<Rightarrow> string \<Rightarrow> bool \<times> plan \<times> string" where
  "instrumentFunction opts L IFL F file =
     (let IRQEntry = isIRQEntryOfTargetArch opts F;
          SyscallEntry = isSyscallEntryOfTargetArch opts F
      in if IRQEntry \<or> SyscallEntry \<or> ClFlushEntryOnly opts
         then case instrumentFlushOnly opts F (IRQEntry \<or> SyscallEntry) of (res, p) \<Rightarrow> (res, p, file)
         else instrumentAll opts L IFL F file)"

text \<open>One run of the pass over the functions of the kernel.\<close>

fun run_pass ::
  "options \<Rightarrow> llvm \<Rightarrow> InstrumentedFunctionList \<Rightarrow> ir_function list \<Rightarrow> string \<Rightarrow> plan list \<times> string" where
  "run_pass opts L IFL [] file = ([], file)"
| "run_pass opts L IFL (F # Fs) file =
     (case instrumentFunction opts L IFL F file of
        (changed, p, file) \<Rightarrow> (case run_pass opts L IFL Fs file of (ps, file) \<Rightarrow> (p # ps, file)))"

section \<open>Instrumented code\<close>

datatype event = Original instr | Callback callback bool

definition run_site :: "u8 \<Rightarrow> plan \<Rightarrow> cell \<Rightarrow> event list" where
  "run_site do_emulate p x =
     (if do_emulate = 1 then concat (map (\<lambda>(cbs, ra). map (\<lambda>cb. Callback cb ra) cbs) (guards (p (fst x)))) else []) @
     (case emulation (p (fst x)) of
        None \<Rightarrow> [Original (snd x)]
      | Some cb \<Rightarrow> if do_emulate \<noteq> 1 then [Original (snd x)] else [Callback cb False])"

end
