(* ===== verification/Ssb_Runtime.thy ===== *)
theory Ssb_Runtime
  imports Byte_Memory
begin

text \<open>
  The parts the two user-level store-buffer runtimes of
  \<^verbatim>\<open>SoftStoreBufferPass/runtime\<close> share: the input vector that tells a buffer how many
  entries to drain (\<^verbatim>\<open>input_vector.h\<close>), the spinlock and the serialised callbacks
  (\<^verbatim>\<open>_spinlock_dev.h\<close>, \<^verbatim>\<open>_decl_callback_debug.h\<close>), the sized callbacks the
  instrumented code calls (\<^verbatim>\<open>_decl_callback.h\<close>), and the interface
  \<open>thread_memory\<close>: what a thread may rely on when its accesses go through a store buffer.
\<close>

section \<open>Input vector\<close>

definition kMaxInputSize :: nat where "kMaxInputSize = 32"

record inputVector =
  inputSize :: nat
  iv_vector :: "nat \<Rightarrow> u32"
  inputPos :: nat

definition feedInput :: "inputVector \<Rightarrow> u32 list \<Rightarrow> inputVector res" where
  "feedInput iv v =
     (if kMaxInputSize < length v then Fault Out_of_bounds
      else Ok (iv\<lparr>iv_vector := (\<lambda>i. if i < length v then v ! i else iv_vector iv i),
                  inputSize := length v\<rparr>))"

definition input_next :: "inputVector \<Rightarrow> (u32 \<times> inputVector) res" where
  "input_next iv =
     (let pos = inputPos iv
      in if inputSize iv = 0 then Fault Div_by_zero
         else if kMaxInputSize \<le> pos then Fault Out_of_bounds
         else Ok (iv_vector iv pos, iv\<lparr>inputPos := (pos + 1) mod inputSize iv\<rparr>))"

definition zero_input :: inputVector where
  "zero_input = \<lparr>inputSize = 0, iv_vector = (\<lambda>_. 0), inputPos = 0\<rparr>"

text \<open>Both indices stay inside the array, whatever is fed and however often it is read.\<close>

definition input_ok :: "inputVector \<Rightarrow> bool" where
  "input_ok iv \<longleftrightarrow> inputSize iv \<le> kMaxInputSize \<and> inputPos iv < kMaxInputSize"

lemma input_ok_zero: "input_ok zero_input"
  by (simp add: input_ok_def zero_input_def kMaxInputSize_def)

lemma input_ok_feed: "input_ok iv \<Longrightarrow> feedInput iv v = Ok iv' \<Longrightarrow> input_ok iv'"
  by (auto simp: input_ok_def feedInput_def split: if_splits)

lemma input_next_ok:
  assumes "input_ok iv" and "0 < inputSize iv"
  shows "\<exists>n iv'. input_next iv = Ok (n, iv') \<and> input_ok iv' \<and> inputSize iv' = inputSize iv"
proof -
  have "(inputPos iv + 1) mod inputSize iv < kMaxInputSize"
    using assms by (simp add: input_ok_def less_le_trans [OF mod_less_divisor])
  then show ?thesis
    using assms by (auto simp: input_ok_def input_next_def Let_def)
qed

text \<open>Reading as often as the vector is long gives back what was fed, when reading starts at the front.\<close>

fun input_take :: "nat \<Rightarrow> inputVector \<Rightarrow> u32 list res" where
  "input_take 0 iv = Ok []"
| "input_take (Suc k) iv =
     res_bind (input_next iv) (\<lambda>(n, iv). res_bind (input_take k iv) (\<lambda>ns. Ok (n # ns)))"

lemma input_take_from:
  assumes "inputSize iv \<le> kMaxInputSize" and "inputPos iv + k \<le> inputSize iv"
  shows "input_take k iv = Ok (map (iv_vector iv) [inputPos iv..<inputPos iv + k])"
  using assms
proof (induction k arbitrary: iv)
  case 0
  then show ?case by simp
next
  case (Suc k)
  let ?iv = "iv\<lparr>inputPos := (inputPos iv + 1) mod inputSize iv\<rparr>"
  have n: "input_next iv = Ok (iv_vector iv (inputPos iv), ?iv)"
    using Suc.prems by (simp add: input_next_def Let_def)
  show ?case
  proof (cases k)
    case 0
    then show ?thesis using n by simp
  next
    case (Suc j)
    then have p: "(inputPos iv + 1) mod inputSize iv = inputPos iv + 1"
      using Suc.prems by simp
    have "[inputPos iv..<inputPos iv + Suc k] = inputPos iv # [inputPos iv + 1..<inputPos iv + 1 + k]"
      by (simp add: upt_conv_Cons)
    moreover have "input_take k ?iv = Ok (map (iv_vector iv) [inputPos iv + 1..<inputPos iv + 1 + k])"
      using Suc.IH [of ?iv] Suc.prems p by simp
    ultimately show ?thesis
      using n by (simp del: upt_Suc)
  qed
qed

section \<open>Runtime state\<close>

text \<open>
  The memory and the input vector are shared by all threads. The buffer is
  \<^verbatim>\<open>thread_local\<close>, so the state holds one per thread number, and the spinlock serialises the callbacks.
\<close>

record 'b runtime =
  rt_mem :: "u64 \<Rightarrow> u8"
  rt_input :: inputVector
  rt_locked :: bool
  rt_buffer :: "nat \<Rightarrow> 'b"

definition upd_buffer :: "nat \<Rightarrow> ('b \<Rightarrow> 'b) \<Rightarrow> 'b runtime \<Rightarrow> 'b runtime" where
  "upd_buffer t f s = s\<lparr>rt_buffer := (rt_buffer s)(t := f (rt_buffer s t))\<rparr>"

lemma upd_buffer_simps [simp]:
  "rt_mem (upd_buffer t f s) = rt_mem s" "rt_input (upd_buffer t f s) = rt_input s"
  "rt_locked (upd_buffer t f s) = rt_locked s"
  "rt_buffer (upd_buffer t f s) u = (if u = t then f (rt_buffer s t) else rt_buffer s u)"
  by (simp_all add: upd_buffer_def)

definition spin_try_lock :: "'b runtime \<Rightarrow> bool \<times> 'b runtime" where
  "spin_try_lock s = (\<not> rt_locked s, s\<lparr>rt_locked := True\<rparr>)"

text \<open>A callback runs to its end before the next one starts, so a held lock is never released while it spins.\<close>

definition spin_lock :: "'b runtime \<Rightarrow> 'b runtime res" where
  "spin_lock s = (case spin_try_lock s of (got, s) \<Rightarrow> if got then Ok s else Fault Diverges)"

definition spin_unlock :: "'b runtime \<Rightarrow> 'b runtime" where
  "spin_unlock s = s\<lparr>rt_locked := False\<rparr>"

type_synonym 'b store_impl = "'b runtime \<Rightarrow> nat \<Rightarrow> u64 \<Rightarrow> u64 \<Rightarrow> nat \<Rightarrow> 'b runtime res"
type_synonym 'b load_impl = "'b runtime \<Rightarrow> nat \<Rightarrow> u64 \<Rightarrow> nat \<Rightarrow> (u64 \<times> 'b runtime) res"
type_synonym 'b flush_impl = "'b runtime \<Rightarrow> nat \<Rightarrow> 'b runtime res"

definition store_callback_serialized :: "'b store_impl \<Rightarrow> 'b store_impl" where
  "store_callback_serialized impl s t addr val sz =
     res_bind (spin_lock s) (\<lambda>s. res_bind (impl s t addr val sz) (\<lambda>s. Ok (spin_unlock s)))"

definition load_callback_serialized :: "'b load_impl \<Rightarrow> 'b load_impl" where
  "load_callback_serialized impl s t addr sz =
     res_bind (spin_lock s) (\<lambda>s. res_bind (impl s t addr sz) (\<lambda>(ret, s). Ok (ret, spin_unlock s)))"

definition flush_callback_serialized :: "'b flush_impl \<Rightarrow> 'b flush_impl" where
  "flush_callback_serialized impl s t =
     res_bind (spin_lock s) (\<lambda>s. res_bind (impl s t) (\<lambda>s. Ok (spin_unlock s)))"

definition feedinput_callback_serialized :: "'b runtime \<Rightarrow> u32 list \<Rightarrow> 'b runtime res" where
  "feedinput_callback_serialized s v =
     res_bind (spin_lock s) (\<lambda>s. res_bind (feedInput (rt_input s) v) (\<lambda>iv. Ok (spin_unlock (s\<lparr>rt_input := iv\<rparr>))))"

section \<open>Sized callbacks\<close>

definition BIT_MASK :: "nat \<Rightarrow> u64" where
  "BIT_MASK bits = (if bits = 64 then 0xffffffffffffffff else push_bit bits 1 - 1)"

text \<open>The sizes that are declared: 16 would need \<^verbatim>\<open>UINT128_MAX\<close>, which no header defines.\<close>

definition access_sizes :: "nat list" where "access_sizes = [1, 2, 4, 8]"

definition ssb_store :: "'b store_impl \<Rightarrow> nat \<Rightarrow> 'b runtime \<Rightarrow> nat \<Rightarrow> u64 \<Rightarrow> u64 \<Rightarrow> 'b runtime res" where
  "ssb_store impl bytes s t addr val =
     (let val' = val AND BIT_MASK (8 * bytes)
      in store_callback_serialized impl s t addr val' bytes)"

definition ssb_load :: "'b load_impl \<Rightarrow> nat \<Rightarrow> 'b runtime \<Rightarrow> nat \<Rightarrow> u64 \<Rightarrow> (u64 \<times> 'b runtime) res" where
  "ssb_load impl bytes s t addr =
     res_bind (load_callback_serialized impl s t addr bytes)
       (\<lambda>(val, s). Ok (val AND BIT_MASK (8 * bytes), s))"

lemma BIT_MASK_eq: "BIT_MASK bits = mask bits" if "bits \<le> 64"
proof (cases "bits = 64")
  case True
  have "(0xffffffffffffffff :: u64) = mask 64"
    by (simp add: mask_eq_decr_exp)
  then show ?thesis using True by (simp add: BIT_MASK_def)
next
  case False
  then show ?thesis by (simp add: BIT_MASK_def mask_eq_exp_minus_1 push_bit_of_1)
qed

lemma BIT_MASK_64 [simp]: "v AND BIT_MASK 64 = v"
  by (rule bit_word_eqI) (simp add: BIT_MASK_eq bit_simps)

lemma serialized_free:
  assumes "\<not> rt_locked s"
  shows "store_callback_serialized f s t a v n =
      res_bind (f (s\<lparr>rt_locked := True\<rparr>) t a v n) (\<lambda>s. Ok (s\<lparr>rt_locked := False\<rparr>))"
    and "load_callback_serialized g s t a n =
      res_bind (g (s\<lparr>rt_locked := True\<rparr>) t a n) (\<lambda>(ret, s). Ok (ret, s\<lparr>rt_locked := False\<rparr>))"
    and "flush_callback_serialized h s t =
      res_bind (h (s\<lparr>rt_locked := True\<rparr>) t) (\<lambda>s. Ok (s\<lparr>rt_locked := False\<rparr>))"
  using assms
  by (simp_all add: store_callback_serialized_def load_callback_serialized_def flush_callback_serialized_def
      spin_lock_def spin_try_lock_def spin_unlock_def)

section \<open>What a thread relies on\<close>

datatype mem_op = Load u64 nat | Store u64 u64 nat | Fence

text \<open>The reference: every access goes to one memory at once.\<close>

fun seq_run :: "mem_op list \<Rightarrow> (u64 \<Rightarrow> u8) \<Rightarrow> u64 list \<times> (u64 \<Rightarrow> u8)" where
  "seq_run [] m = ([], m)"
| "seq_run (Load a n # ops) m =
     (case seq_run ops m of (vs, m') \<Rightarrow> (of_le_bytes (read_bytes a n m) # vs, m'))"
| "seq_run (Store a v n # ops) m = seq_run ops (write_bytes a (le_bytes n v) m)"
| "seq_run (Fence # ops) m = seq_run ops m"

fun run_ops ::
  "('s \<Rightarrow> u64 \<Rightarrow> nat \<Rightarrow> (u64 \<times> 's) res) \<Rightarrow> ('s \<Rightarrow> u64 \<Rightarrow> u64 \<Rightarrow> nat \<Rightarrow> 's res) \<Rightarrow> ('s \<Rightarrow> 's res) \<Rightarrow>
   mem_op list \<Rightarrow> 's \<Rightarrow> (u64 list \<times> 's) res" where
  "run_ops ld st fl [] s = Ok ([], s)"
| "run_ops ld st fl (Load a n # ops) s =
     res_bind (ld s a n) (\<lambda>(v, s). res_bind (run_ops ld st fl ops s) (\<lambda>(vs, s). Ok (v # vs, s)))"
| "run_ops ld st fl (Store a v n # ops) s = res_bind (st s a v n) (run_ops ld st fl ops)"
| "run_ops ld st fl (Fence # ops) s = res_bind (fl s) (run_ops ld st fl ops)"

lemma run_ops_fence:
  "run_ops ld st fl ops s = Ok (vs, s') \<Longrightarrow> fl s' = Ok s'' \<Longrightarrow> run_ops ld st fl (ops @ [Fence]) s = Ok (vs, s'')"
proof (induction ops arbitrary: s vs)
  case Nil
  then show ?case by simp
next
  case (Cons x ops)
  then show ?case by (cases x) (fastforce split: prod.splits)+
qed

primrec op_ok :: "(u64 \<Rightarrow> nat \<Rightarrow> bool) \<Rightarrow> mem_op \<Rightarrow> bool" where
  "op_ok ok (Load a n) = ok a n"
| "op_ok ok (Store a v n) = ok a n"
| "op_ok ok Fence = True"

text \<open>
  \<open>view\<close> is the memory as the thread sees it, \<open>global\<close> the memory every thread shares. A load returns
  what the view holds, a store changes exactly its bytes of the view, a fence makes the view global.
\<close>

locale thread_memory =
  fixes inv :: "'s \<Rightarrow> bool"
    and ok :: "u64 \<Rightarrow> nat \<Rightarrow> bool"
    and view :: "'s \<Rightarrow> u64 \<Rightarrow> u8"
    and global :: "'s \<Rightarrow> u64 \<Rightarrow> u8"
    and ld :: "'s \<Rightarrow> u64 \<Rightarrow> nat \<Rightarrow> (u64 \<times> 's) res"
    and st :: "'s \<Rightarrow> u64 \<Rightarrow> u64 \<Rightarrow> nat \<Rightarrow> 's res"
    and fl :: "'s \<Rightarrow> 's res"
  assumes load_law: "inv s \<Longrightarrow> ok a n \<Longrightarrow>
      \<exists>s'. ld s a n = Ok (of_le_bytes (read_bytes a n (view s)), s') \<and> inv s' \<and> view s' = view s"
    and store_law: "inv s \<Longrightarrow> ok a n \<Longrightarrow>
      \<exists>s'. st s a v n = Ok s' \<and> inv s' \<and> view s' = write_bytes a (le_bytes n v) (view s)"
    and fence_law: "inv s \<Longrightarrow> \<exists>s'. fl s = Ok s' \<and> inv s' \<and> view s' = view s \<and> global s' = view s"
begin

lemma run_sequential:
  "inv s \<Longrightarrow> list_all (op_ok ok) ops \<Longrightarrow>
   \<exists>s'. run_ops ld st fl ops s = Ok (fst (seq_run ops (view s)), s') \<and> inv s' \<and>
     view s' = snd (seq_run ops (view s))"
proof (induction ops arbitrary: s)
  case Nil
  then show ?case by simp
next
  case (Cons x ops)
  show ?case
  proof (cases x)
    case (Load a n)
    then obtain s' where "ld s a n = Ok (of_le_bytes (read_bytes a n (view s)), s')" "inv s'" "view s' = view s"
      using load_law [of s a n] Cons.prems by auto
    then show ?thesis
      using Cons.IH [of s'] Cons.prems Load by (auto simp: split_beta)
  next
    case (Store a v n)
    then obtain s' where "st s a v n = Ok s'" "inv s'" "view s' = write_bytes a (le_bytes n v) (view s)"
      using store_law [of s a n v] Cons.prems by auto
    then show ?thesis
      using Cons.IH [of s'] Cons.prems Store by auto
  next
    case Fence
    obtain s' where "fl s = Ok s'" "inv s'" "view s' = view s"
      using fence_law [of s] Cons.prems by auto
    then show ?thesis
      using Cons.IH [of s'] Cons.prems Fence by auto
  qed
qed

lemma run_then_fence:
  assumes "inv s" and "list_all (op_ok ok) ops"
  shows "\<exists>s'. run_ops ld st fl (ops @ [Fence]) s = Ok (fst (seq_run ops (view s)), s') \<and>
    global s' = snd (seq_run ops (view s))"
proof -
  obtain s' where r: "run_ops ld st fl ops s = Ok (fst (seq_run ops (view s)), s')" "inv s'"
    "view s' = snd (seq_run ops (view s))"
    using run_sequential [OF assms] by auto
  then show ?thesis
    using fence_law [of s'] run_ops_fence [OF r(1)] by auto
qed

end

end
