(* ===== verification/Ssb_Pass_Spec.thy ===== *)
theory Ssb_Pass_Spec
  imports Ssb_Pass Ssb_Runtime
begin

text \<open>
  What the compiler pass of \<^verbatim>\<open>SSBPass.cpp\<close> does to a function, as a closed description: the
  instructions its visit reaches, the class of each, and from them the guards and the emulation of
  every instruction. The loops that collect and instrument are shown to give exactly that.
\<close>

section \<open>Classes of instructions\<close>

definition fencing :: "instr \<Rightarrow> bool" where
  "fencing i \<longleftrightarrow> isAtomic i \<or> isRMWBitOps i"

definition call_of :: "instr \<Rightarrow> call option" where
  "call_of i = (case i of CallInst c \<Rightarrow> Some c | InvokeInst c \<Rightarrow> Some c | _ \<Rightarrow> None)"

definition plain_call :: "instr \<Rightarrow> bool" where
  "plain_call i \<longleftrightarrow> \<not> fencing i \<and> call_of i \<noteq> None"

definition barrier_call :: "options \<Rightarrow> instr \<Rightarrow> bool" where
  "barrier_call opts i \<longleftrightarrow> plain_call i \<and> isMemBarrierOfTargetArch opts i"

definition leaving_call :: "InstrumentedFunctionList \<Rightarrow> instr \<Rightarrow> bool" where
  "leaving_call IFL i \<longleftrightarrow> plain_call i \<and> isOutofScopeCall (the (call_of i)) IFL"

text \<open>The visit of a block ends at the first call that is a \<^verbatim>\<open>BUG\<close>.\<close>

definition stops :: "options \<Rightarrow> instr \<Rightarrow> bool" where
  "stops opts i \<longleftrightarrow> plain_call i \<and> isBUG opts i"

fun visited :: "options \<Rightarrow> cell list \<Rightarrow> cell list" where
  "visited opts [] = []"
| "visited opts (x # xs) = x # (if stops opts (snd x) then [] else visited opts xs)"

definition reached :: "options \<Rightarrow> ir_function \<Rightarrow> cell list" where
  "reached opts F = concat (map (visited opts) (cells F))"

section \<open>The visit\<close>

lemma interesting_plain: "isInterestingLoadStore i \<Longrightarrow> \<not> fencing i \<and> call_of i = None \<and> i \<noteq> ReturnInst"
  by (cases i) (auto simp: isInterestingLoadStore_def fencing_def isAtomic_def isRMWBitOps_def call_of_def)

lemma return_plain: "\<not> fencing ReturnInst" "call_of ReturnInst = None" "\<not> isInterestingLoadStore ReturnInst"
  by (simp_all add: fencing_def isAtomic_def isRMWBitOps_def call_of_def isInterestingLoadStore_def)

lemma choose_simps [simp]:
  "AtomicAccesses (chooseInstructionsToInstrument L c) = AtomicAccesses c"
  "MemBarrier (chooseInstructionsToInstrument L c) = MemBarrier c"
  "AllReturns (chooseInstructionsToInstrument L c) = AllReturns c"
  "OutofScopeCalls (chooseInstructionsToInstrument L c) = OutofScopeCalls c"
  "HasCalls (chooseInstructionsToInstrument L c) = HasCalls c"
  "LocalLoadsAndStores (chooseInstructionsToInstrument L c) = []"
  by (simp_all add: chooseInstructionsToInstrument_def)

definition picked :: "llvm \<Rightarrow> collected \<Rightarrow> cell set" where
  "picked L c = set (AllLoadsAndStores c) \<union> {x \<in> set (LocalLoadsAndStores c). chosen L (snd x)}"

lemma choose_picked [simp]:
  "set (AllLoadsAndStores (chooseInstructionsToInstrument L c)) = picked L c"
  "picked L (chooseInstructionsToInstrument L c) = picked L c"
  by (auto simp: picked_def chooseInstructionsToInstrument_def)

text \<open>One instruction of the visit: each list grows by the instruction when it belongs there.\<close>

lemma visit_inst_eq:
  "visit_inst opts L IFL x c =
     (if fencing (snd x) then (False, c\<lparr>AtomicAccesses := AtomicAccesses c @ [x]\<rparr>)
      else if isInterestingLoadStore (snd x) then (False, c\<lparr>LocalLoadsAndStores := LocalLoadsAndStores c @ [x]\<rparr>)
      else if snd x = ReturnInst then (False, c\<lparr>AllReturns := AllReturns c @ [x]\<rparr>)
      else case call_of (snd x) of Some cl \<Rightarrow> visit_call opts L IFL x cl c | None \<Rightarrow> (False, c))"
  by (cases "snd x") (simp_all add: visit_inst_def fencing_def call_of_def)

definition grown :: "options \<Rightarrow> llvm \<Rightarrow> InstrumentedFunctionList \<Rightarrow> cell list \<Rightarrow> collected \<Rightarrow> collected \<Rightarrow> bool" where
  "grown opts L IFL xs c c' \<longleftrightarrow>
     AtomicAccesses c' = AtomicAccesses c @ filter (\<lambda>x. fencing (snd x)) xs \<and>
     MemBarrier c' = MemBarrier c @ filter (\<lambda>x. barrier_call opts (snd x)) xs \<and>
     AllReturns c' = AllReturns c @ filter (\<lambda>x. snd x = ReturnInst) xs \<and>
     OutofScopeCalls c' = OutofScopeCalls c @ filter (\<lambda>x. leaving_call IFL (snd x)) xs \<and>
     HasCalls c' = (HasCalls c \<or> (\<exists>x\<in>set xs. plain_call (snd x))) \<and>
     picked L c' = picked L c \<union> {x \<in> set xs. isInterestingLoadStore (snd x) \<and> chosen L (snd x)}"

lemma grown_trans: "grown opts L IFL xs c d \<Longrightarrow> grown opts L IFL ys d e \<Longrightarrow> grown opts L IFL (xs @ ys) c e"
  unfolding grown_def by auto

lemma grown_choose: "grown opts L IFL xs c d \<Longrightarrow> grown opts L IFL xs c (chooseInstructionsToInstrument L d)"
  by (simp add: grown_def)

lemma visit_call_grown:
  assumes "call_of (snd x) = Some cl" and "\<not> fencing (snd x)"
  shows "grown opts L IFL [x] c (snd (visit_call opts L IFL x cl c))"
    and "fst (visit_call opts L IFL x cl c) = stops opts (snd x)"
proof -
  have n: "snd x \<noteq> ReturnInst" "\<not> isInterestingLoadStore (snd x)"
    using assms interesting_plain by (auto simp: return_plain)
  define d where "d = (let c = (if isOutofScopeCall cl IFL then c\<lparr>OutofScopeCalls := OutofScopeCalls c @ [x]\<rparr> else c);
      c = (if intrinsic_id cl = Some mem_intrinsic then c\<lparr>MemIntrinCalls := MemIntrinCalls c @ [x]\<rparr> else c)
    in if isMemBarrierOfTargetArch opts (snd x) then c\<lparr>MemBarrier := MemBarrier c @ [x]\<rparr> else c)\<lparr>HasCalls := True\<rparr>"
  have "grown opts L IFL [x] c d"
    unfolding grown_def using assms n
    by (auto simp: d_def picked_def Let_def plain_call_def barrier_call_def leaving_call_def)
  moreover have "visit_call opts L IFL x cl c = (isBUG opts (snd x), chooseInstructionsToInstrument L d)"
    by (simp add: visit_call_def d_def Let_def)
  ultimately show "grown opts L IFL [x] c (snd (visit_call opts L IFL x cl c))"
    "fst (visit_call opts L IFL x cl c) = stops opts (snd x)"
    using assms by (simp_all add: grown_choose stops_def plain_call_def)
qed

lemma visit_inst_grown:
  assumes "visit_inst opts L IFL x c = (stop, c')"
  shows "stop = stops opts (snd x)" and "grown opts L IFL [x] c c'"
proof -
  have "stop = stops opts (snd x) \<and> grown opts L IFL [x] c c'"
  proof (cases "call_of (snd x)")
    case None
    then have "\<not> plain_call (snd x)" by (simp add: plain_call_def)
    then show ?thesis
      using assms None interesting_plain [of "snd x"] return_plain
      by (auto simp: visit_inst_eq grown_def picked_def stops_def barrier_call_def leaving_call_def split: if_splits)
  next
    case (Some cl)
    then have n: "snd x \<noteq> ReturnInst" "\<not> isInterestingLoadStore (snd x)"
      using interesting_plain by (auto simp: return_plain)
    show ?thesis
    proof (cases "fencing (snd x)")
      case True
      then show ?thesis
        using assms n by (auto simp: visit_inst_eq grown_def picked_def stops_def plain_call_def
            barrier_call_def leaving_call_def)
    next
      case False
      then have "visit_call opts L IFL x cl c = (stop, c')"
        using assms n Some by (simp add: visit_inst_eq)
      then show ?thesis
        using visit_call_grown [OF Some False, of opts L IFL c] by simp
    qed
  qed
  then show "stop = stops opts (snd x)" "grown opts L IFL [x] c c'"
    by simp_all
qed

lemma visit_block_grown:
  "grown opts L IFL (visited opts xs) c (visit_block opts L IFL xs c) \<and>
   LocalLoadsAndStores (visit_block opts L IFL xs c) = []"
proof (induction xs arbitrary: c)
  case Nil
  then show ?case by (simp add: grown_def)
next
  case (Cons x xs)
  obtain stop c' where v: "visit_inst opts L IFL x c = (stop, c')"
    by (cases "visit_inst opts L IFL x c")
  note g = visit_inst_grown [OF v]
  show ?case
  proof (cases stop)
    case True
    then show ?thesis
      using v g by (simp add: grown_choose)
  next
    case False
    then show ?thesis
      using v g Cons.IH [of c'] grown_trans [OF g(2), of "visited opts xs"] by simp
  qed
qed

lemma collect_grown:
  "grown opts L IFL (reached opts F) nothing_collected (collect opts L IFL F)"
  "set (AllLoadsAndStores (collect opts L IFL F)) = picked L (collect opts L IFL F)"
proof -
  have "grown opts L IFL (concat (map (visited opts) bs)) c (fold (visit_block opts L IFL) bs c) \<and>
      (LocalLoadsAndStores c = [] \<longrightarrow> LocalLoadsAndStores (fold (visit_block opts L IFL) bs c) = [])" for bs c
  proof (induction bs arbitrary: c)
    case Nil
    then show ?case by (simp add: grown_def)
  next
    case (Cons b bs)
    then show ?case
      using visit_block_grown [of opts L IFL b c] grown_trans by fastforce
  qed
  from this [of "cells F" nothing_collected]
  show "grown opts L IFL (reached opts F) nothing_collected (collect opts L IFL F)"
    "set (AllLoadsAndStores (collect opts L IFL F)) = picked L (collect opts L IFL F)"
    by (simp_all add: collect_def reached_def picked_def nothing_collected_def)
qed

section \<open>References\<close>

lemma ex_enumerate: "(\<exists>y\<in>set (enumerate 0 bs). n = fst y \<and> P (snd y)) \<longleftrightarrow> n < length bs \<and> P (bs ! n)"
  by (auto simp: in_set_enumerate_eq intro!: bexI [of _ "(n, bs ! n)"])

lemma mem_cells:
  "(r, i) \<in> set (concat (cells F)) \<longleftrightarrow>
   fst r < length (fn_blocks F) \<and> snd r < length (fn_blocks F ! fst r) \<and> i = fn_blocks F ! fst r ! snd r"
proof -
  have "(r, i) \<in> set (map (\<lambda>(k, i). ((b, k), i)) (enumerate 0 is)) \<longleftrightarrow>
      fst r = b \<and> snd r < length is \<and> i = is ! snd r" for b "is"
  proof
    assume "fst r = b \<and> snd r < length is \<and> i = is ! snd r"
    then have "(snd r, i) \<in> set (enumerate 0 is)" and "(r, i) = (\<lambda>(k, i). ((b, k), i)) (snd r, i)"
      by (cases r, simp add: in_set_enumerate_eq)+
    then show "(r, i) \<in> set (map (\<lambda>(k, i). ((b, k), i)) (enumerate 0 is))"
      unfolding set_map by (rule rev_image_eqI)
  qed (auto simp: in_set_enumerate_eq)
  then have "(r, i) \<in> set (concat (cells F)) \<longleftrightarrow>
      (\<exists>y\<in>set (enumerate 0 (fn_blocks F)). fst r = fst y \<and> snd r < length (snd y) \<and> i = snd y ! snd r)"
    unfolding cells_def set_concat
    by (auto simp: set_map [of _ "enumerate 0 (fn_blocks F)"] simp del: set_map intro: bexI [rotated])
  also have "\<dots> \<longleftrightarrow> fst r < length (fn_blocks F) \<and> snd r < length (fn_blocks F ! fst r) \<and> i = fn_blocks F ! fst r ! snd r"
    by (rule ex_enumerate)
  finally show ?thesis .
qed

lemma cells_unique: "(r, i) \<in> set (concat (cells F)) \<Longrightarrow> (r, j) \<in> set (concat (cells F)) \<Longrightarrow> i = j"
  unfolding mem_cells by simp

lemma visited_subset: "set (visited opts xs) \<subseteq> set xs"
  by (induction xs) auto

lemma reached_subset: "set (reached opts F) \<subseteq> set (concat (cells F))"
  using visited_subset by (fastforce simp: reached_def)

lemma distinct_visited: "distinct (map fst xs) \<Longrightarrow> distinct (map fst (visited opts xs))"
proof (induction xs)
  case (Cons x xs)
  then show ?case
    using visited_subset [of opts xs] by auto
qed simp

lemma distinct_reached: "distinct (map fst (reached opts F))"
proof -
  have "distinct (map fst (concat (map (visited opts)
      (map (\<lambda>(b, is). map (\<lambda>(k, i). ((b, k), i)) (enumerate 0 is)) (enumerate n bs))))) \<and>
    (\<forall>r\<in>fst ` set (concat (map (visited opts)
      (map (\<lambda>(b, is). map (\<lambda>(k, i). ((b, k), i)) (enumerate 0 is)) (enumerate n bs)))). n \<le> fst r)" for n bs
  proof (induction bs arbitrary: n)
    case Nil
    then show ?case by simp
  next
    case (Cons b bs)
    let ?c = "map (\<lambda>(k, i). ((n, k), i)) (enumerate 0 b)"
    have "map fst ?c = map (Pair n) [0..<length b]"
      by (rule nth_equalityI) (simp_all add: nth_enumerate_eq)
    then have "distinct (map fst ?c)" by (simp only: distinct_map) (simp add: inj_on_def)
    then have "distinct (map fst (visited opts ?c))" by (rule distinct_visited)
    moreover have "\<forall>x\<in>set (visited opts ?c). fst (fst x) = n"
      using visited_subset [of opts ?c] by auto
    ultimately show ?case
      using Cons.IH [of "Suc n"] by fastforce
  qed
  then show ?thesis by (simp add: reached_def cells_def)
qed

section \<open>The plan\<close>

text \<open>The groups a pass over a list of instructions adds at one of them.\<close>

definition groups_at :: "iref \<Rightarrow> 'g \<Rightarrow> cell list \<Rightarrow> 'g list" where
  "groups_at r g xs = concat (map (\<lambda>x. if fst x = r then [g] else []) xs)"

lemma groups_at_simps [simp]: "groups_at r g [] = []" "groups_at r g (x # xs) = (if fst x = r then [g] else []) @ groups_at r g xs"
  by (simp_all add: groups_at_def)

lemma groups_at_mem: "(r, i) \<in> set xs \<Longrightarrow> g \<in> set (groups_at r g xs)"
  by (induction xs) auto

lemma groups_at_filter:
  "distinct (map fst xs) \<Longrightarrow> groups_at r g (filter P xs) = (if \<exists>x\<in>set xs. fst x = r \<and> P x then [g] else [])"
  by (induction xs) (auto simp: image_iff)

lemma helper_simps [simp]:
  "guards (instrumentHelper r cbs ra p r') = guards (p r') @ (if r = r' then [(cbs, ra)] else [])"
  "emulation (instrumentHelper r cbs ra p r') = emulation (p r')"
  by (simp_all add: instrumentHelper_def)

lemma each_flush:
  assumes "ClInstrumentFlush opts"
  shows "guards (snd (instrument_each (instrumentFlush opts) xs (b, p)) r) =
      guards (p r) @ groups_at r ([SSBFlush, SSBLfence], False) xs"
    and "emulation (snd (instrument_each (instrumentFlush opts) xs (b, p)) r) = emulation (p r)"
  using assms by (induction xs arbitrary: b p) (simp_all add: instrumentFlush_def)

lemma each_retcheck:
  assumes "ClInstrumentFlush opts"
  shows "guards (snd (instrument_each (instrumentRetCheck opts) xs (b, p)) r) =
      guards (p r) @ groups_at r ([SSBRetCheck], True) xs"
    and "emulation (snd (instrument_each (instrumentRetCheck opts) xs (b, p)) r) = emulation (p r)"
  using assms by (induction xs arbitrary: b p) (simp_all add: instrumentRetCheck_def)

text \<open>The callback of an access, if it gets one.\<close>

definition access_callback :: "llvm \<Rightarrow> instr \<Rightarrow> callback option" where
  "access_callback L i =
     (let idx = getMemoryAccessFuncIndex L (pointer_operand i)
      in if isSwiftError L (pointer_operand i) \<or> idx < 0 then None
         else Some (if is_store i then SSBStore (nat idx) else SSBLoad (nat idx)))"

lemma instrumentLoadOrStore_eq:
  "snd (instrumentLoadOrStore L x p) =
     (case access_callback L (snd x) of None \<Rightarrow> p | Some cb \<Rightarrow> p(fst x := (p (fst x))\<lparr>emulation := Some cb\<rparr>))"
  by (simp add: instrumentLoadOrStore_def access_callback_def Let_def)

lemma each_access_step:
  "\<exists>res. instrument_each (instrumentLoadOrStore L) (x # xs) (b, p) =
     instrument_each (instrumentLoadOrStore L) xs (res, case access_callback L (snd x) of
       None \<Rightarrow> p | Some cb \<Rightarrow> p(fst x := (p (fst x))\<lparr>emulation := Some cb\<rparr>))"
  unfolding instrumentLoadOrStore_eq [symmetric] by (auto simp: split_beta)

lemma each_access_guards:
  "guards (snd (instrument_each (instrumentLoadOrStore L) xs (b, p)) r) = guards (p r)"
proof (induction xs arbitrary: b p)
  case (Cons x xs)
  obtain res where step: "instrument_each (instrumentLoadOrStore L) (x # xs) (b, p) =
      instrument_each (instrumentLoadOrStore L) xs (res, case access_callback L (snd x) of
        None \<Rightarrow> p | Some cb \<Rightarrow> p(fst x := (p (fst x))\<lparr>emulation := Some cb\<rparr>))"
    using each_access_step by blast
  show ?case
    unfolding step Cons.IH by (simp split: option.splits)
qed simp

lemma each_access_emulation:
  "\<forall>x\<in>set xs. snd x = f (fst x) \<Longrightarrow>
   emulation (snd (instrument_each (instrumentLoadOrStore L) xs (b, p)) r) =
     (if r \<in> fst ` set xs \<and> access_callback L (f r) \<noteq> None then access_callback L (f r) else emulation (p r))"
proof (induction xs arbitrary: b p)
  case (Cons x xs)
  obtain res where step: "instrument_each (instrumentLoadOrStore L) (x # xs) (b, p) =
      instrument_each (instrumentLoadOrStore L) xs (res, case access_callback L (snd x) of
        None \<Rightarrow> p | Some cb \<Rightarrow> p(fst x := (p (fst x))\<lparr>emulation := Some cb\<rparr>))"
    using each_access_step by blast
  have f: "\<forall>x\<in>set xs. snd x = f (fst x)" "snd x = f (fst x)"
    using Cons.prems by simp_all
  show ?case
    unfolding step Cons.IH [OF f(1)] f(2) by (auto split: option.splits)
qed simp

text \<open>The closed description of what \<open>instrumentAll\<close> does at an instruction.\<close>

definition planned_guards :: "options \<Rightarrow> InstrumentedFunctionList \<Rightarrow> ir_function \<Rightarrow> cell \<Rightarrow> (callback list \<times> bool) list" where
  "planned_guards opts IFL F x =
     (let flush = ([SSBFlush, SSBLfence], False); seen = x \<in> set (reached opts F)
      in (if fst x = (0, getFirstNonPHIOrDbgOrAlloca True (hd (fn_blocks F))) then [([SSBFuncEntry], True)] else []) @
         (if seen \<and> barrier_call opts (snd x) then [flush] else []) @
         (if seen \<and> fencing (snd x) then [flush] else []) @
         (if seen \<and> leaving_call IFL (snd x) \<and> ClInstrumentOutofScopeCalls opts then [flush] else []) @
         (if seen \<and> snd x = ReturnInst \<and> fn_name F \<noteq> ''pso_test_breakpoint'' then [([SSBRetCheck], True)] else []))"

definition planned_emulation :: "options \<Rightarrow> llvm \<Rightarrow> ir_function \<Rightarrow> cell \<Rightarrow> callback option" where
  "planned_emulation opts L F x =
     (if x \<in> set (reached opts F) \<and> isInterestingLoadStore (snd x) \<and> chosen L (snd x)
      then access_callback L (snd x) else None)"

definition instrumentable :: "options \<Rightarrow> ir_function \<Rightarrow> bool" where
  "instrumentable opts F \<longleftrightarrow>
     ClSecondPass opts \<and> ClInstrumentFlush opts \<and> \<not> fn_no_ssb F \<and> fn_section F \<noteq> ''.noinstr.text''"

lemma reached_at:
  assumes "(r, i) \<in> set (concat (cells F))"
  shows "(\<exists>x\<in>set (reached opts F). fst x = r \<and> P (snd x)) \<longleftrightarrow> (r, i) \<in> set (reached opts F) \<and> P i"
proof -
  have "j = i" if "(r, j) \<in> set (reached opts F)" for j
    using cells_unique [OF _ assms] subsetD [OF reached_subset that] by blast
  then show ?thesis by (metis fst_conv prod.collapse snd_conv)
qed

lemma select_cell:
  assumes "(r, i) \<in> set (concat (cells F))"
  shows "groups_at r g (filter (\<lambda>x. P (snd x)) (reached opts F)) =
    (if (r, i) \<in> set (reached opts F) \<and> P i then [g] else [])"
proof -
  have "(\<exists>x\<in>set (reached opts F). fst x = r \<and> P (snd x)) \<longleftrightarrow> (r, i) \<in> set (reached opts F) \<and> P i"
    by (rule reached_at [OF assms])
  then show ?thesis
    by (simp add: groups_at_filter [OF distinct_reached])
qed

lemma collect_simps:
  "AtomicAccesses (collect opts L IFL F) = filter (\<lambda>x. fencing (snd x)) (reached opts F)"
  "MemBarrier (collect opts L IFL F) = filter (\<lambda>x. barrier_call opts (snd x)) (reached opts F)"
  "AllReturns (collect opts L IFL F) = filter (\<lambda>x. snd x = ReturnInst) (reached opts F)"
  "OutofScopeCalls (collect opts L IFL F) = filter (\<lambda>x. leaving_call IFL (snd x)) (reached opts F)"
  "HasCalls (collect opts L IFL F) = (\<exists>x\<in>set (reached opts F). plain_call (snd x))"
  "set (AllLoadsAndStores (collect opts L IFL F)) =
     {x \<in> set (reached opts F). isInterestingLoadStore (snd x) \<and> chosen L (snd x)}"
proof -
  have "set (AllLoadsAndStores (collect opts L IFL F)) =
      picked L nothing_collected \<union> {x \<in> set (reached opts F). isInterestingLoadStore (snd x) \<and> chosen L (snd x)}"
    using collect_grown(1) [of opts L IFL F] unfolding collect_grown(2) grown_def by blast
  then show "set (AllLoadsAndStores (collect opts L IFL F)) =
      {x \<in> set (reached opts F). isInterestingLoadStore (snd x) \<and> chosen L (snd x)}"
    by (simp add: picked_def nothing_collected_def)
qed (use collect_grown(1) [of opts L IFL F] in \<open>simp_all add: grown_def nothing_collected_def\<close>)

text \<open>The plan before the entry and return callbacks are added.\<close>

definition body_plan :: "options \<Rightarrow> llvm \<Rightarrow> InstrumentedFunctionList \<Rightarrow> ir_function \<Rightarrow> bool \<times> plan" where
  "body_plan opts L IFL F =
     (let c = collect opts L IFL F;
          rp = instrument_each (instrumentLoadOrStore L) (AllLoadsAndStores c) (False, \<lambda>_. bare_site);
          rp = instrument_each (instrumentFlush opts) (MemBarrier c) rp;
          rp = instrument_each (instrumentFlush opts) (AtomicAccesses c) rp
      in if ClInstrumentOutofScopeCalls opts
         then instrument_each (instrumentFlush opts) (OutofScopeCalls c) rp else rp)"

lemma each_flush_pair:
  assumes "ClInstrumentFlush opts"
  shows "guards (snd (instrument_each (instrumentFlush opts) xs rp) r) =
      guards (snd rp r) @ groups_at r ([SSBFlush, SSBLfence], False) xs"
    and "emulation (snd (instrument_each (instrumentFlush opts) xs rp) r) = emulation (snd rp r)"
  using each_flush [OF assms, of xs "fst rp" "snd rp" r] by simp_all

lemma body_plan_site:
  assumes "ClInstrumentFlush opts" and "(r, i) \<in> set (concat (cells F))"
  shows "guards (snd (body_plan opts L IFL F) r) =
      (let flush = ([SSBFlush, SSBLfence], False); seen = (r, i) \<in> set (reached opts F)
       in (if seen \<and> barrier_call opts i then [flush] else []) @ (if seen \<and> fencing i then [flush] else []) @
          (if seen \<and> leaving_call IFL i \<and> ClInstrumentOutofScopeCalls opts then [flush] else []))"
    and "emulation (snd (body_plan opts L IFL F) r) = planned_emulation opts L F (r, i)"
proof -
  define f where "f r = fn_blocks F ! fst r ! snd r" for r
  have fi: "f r = i"
    using assms(2) unfolding mem_cells by (simp add: f_def)
  have "x \<in> set (concat (cells F)) \<Longrightarrow> snd x = f (fst x)" for x
    using mem_cells [of "fst x" "snd x" F] by (simp add: f_def)
  then have f: "\<forall>x\<in>set (AllLoadsAndStores (collect opts L IFL F)). snd x = f (fst x)"
    using reached_subset [of opts F] unfolding collect_simps by blast
  show "guards (snd (body_plan opts L IFL F) r) =
      (let flush = ([SSBFlush, SSBLfence], False); seen = (r, i) \<in> set (reached opts F)
       in (if seen \<and> barrier_call opts i then [flush] else []) @ (if seen \<and> fencing i then [flush] else []) @
          (if seen \<and> leaving_call IFL i \<and> ClInstrumentOutofScopeCalls opts then [flush] else []))"
    by (simp add: body_plan_def Let_def each_flush_pair [OF assms(1)] each_access_guards collect_simps(1-4)
        select_cell [OF assms(2)] bare_site_def)
  have "r \<in> fst ` {x \<in> set (reached opts F). isInterestingLoadStore (snd x) \<and> chosen L (snd x)} \<longleftrightarrow>
      (r, i) \<in> set (reached opts F) \<and> isInterestingLoadStore i \<and> chosen L i"
    using reached_at [OF assms(2), where P = "\<lambda>i. isInterestingLoadStore i \<and> chosen L i"] by blast
  then show "emulation (snd (body_plan opts L IFL F) r) = planned_emulation opts L F (r, i)"
    by (simp add: body_plan_def Let_def each_flush_pair [OF assms(1)] each_access_emulation [OF f] collect_simps(6)
        planned_emulation_def fi bare_site_def)
qed

lemma instrumentAll_plan:
  assumes "instrumentable opts F" and "(r, i) \<in> set (concat (cells F))"
    and "instrumentAll opts L IFL F file = (changed, p, file')"
  shows "guards (p r) = planned_guards opts IFL F (r, i)"
    and "emulation (p r) = planned_emulation opts L F (r, i)"
    and "file' = file"
proof -
  have fl: "ClInstrumentFlush opts" using assms(1) by (simp add: instrumentable_def)
  define e where "e = (0 :: nat, getFirstNonPHIOrDbgOrAlloca True (hd (fn_blocks F)))"
  define q where "q = snd (instrumentFuncEntry opts e (snd (body_plan opts L IFL F)))"
  have q: "guards (q r) = (if r = e then [([SSBFuncEntry], True)] else []) @ guards (snd (body_plan opts L IFL F) r)"
    "emulation (q r) = emulation (snd (body_plan opts L IFL F) r)"
    using fl by (simp_all add: instrumentFuncEntry_def q_def)
  have "instrumentAll opts L IFL F file = (fst (body_plan opts L IFL F) \<or> HasCalls (collect opts L IFL F),
      if fn_name F \<noteq> ''pso_test_breakpoint''
      then snd (instrument_each (instrumentRetCheck opts) (AllReturns (collect opts L IFL F)) (False, q)) else q, file)"
    using assms(1) by (simp add: instrumentAll_def instrumentable_def body_plan_def Let_def split_beta q_def e_def)
  then have p: "p = (if fn_name F \<noteq> ''pso_test_breakpoint''
      then snd (instrument_each (instrumentRetCheck opts) (AllReturns (collect opts L IFL F)) (False, q)) else q)"
    and "file' = file"
    using assms(3) by auto
  then show "file' = file" by simp
  show "guards (p r) = planned_guards opts IFL F (r, i)" "emulation (p r) = planned_emulation opts L F (r, i)"
    unfolding p by ((cases "fn_name F = ''pso_test_breakpoint''"; simp add: each_retcheck [OF fl] q body_plan_site [OF fl assms(2)] collect_simps(3)
        select_cell [OF assms(2), where P = "\<lambda>i. i = ReturnInst"] planned_guards_def Let_def
        flip: e_def split del: if_split)+)
qed

section \<open>Access sizes\<close>

lemma ctz_values:
  "countTrailingZeros 1 = 0" "countTrailingZeros 2 = 1" "countTrailingZeros 4 = 2" "countTrailingZeros 8 = 3"
  by (simp_all add: countTrailingZeros.simps)

lemma access_index_size:
  assumes "getTypeStoreSizeInBits L a = 8 * 2 ^ k" and "k < 4"
  shows "getMemoryAccessFuncIndex L a = int k"
proof -
  consider "k = 0" | "k = 1" | "k = 2" | "k = 3" using assms(2) by linarith
  then show ?thesis
    by cases (use assms(1) in \<open>simp_all add: getMemoryAccessFuncIndex_def ctz_values [simplified]\<close>)
qed

lemma access_index:
  assumes "0 \<le> getMemoryAccessFuncIndex L a"
  shows "getMemoryAccessFuncIndex L a < 4"
    and "getTypeStoreSizeInBits L a mod 2 ^ 32 = 8 * 2 ^ nat (getMemoryAccessFuncIndex L a)"
proof -
  let ?n = "getTypeStoreSizeInBits L a mod 2 ^ 32"
  consider "?n = 8" | "?n = 16" | "?n = 32" | "?n = 64" | "getMemoryAccessFuncIndex L a = - 1"
    unfolding getMemoryAccessFuncIndex_def Let_def by presburger
  then have "getMemoryAccessFuncIndex L a < 4 \<and> ?n = 8 * 2 ^ nat (getMemoryAccessFuncIndex L a)"
  proof cases
    case 5
    then show ?thesis using assms by simp
  qed (simp_all add: getMemoryAccessFuncIndex_def ctz_values [simplified])
  then show "getMemoryAccessFuncIndex L a < 4" "?n = 8 * 2 ^ nat (getMemoryAccessFuncIndex L a)"
    by simp_all
qed

lemma access_callback_declared:
  assumes "access_callback L i = Some cb"
  shows "\<exists>k. cb = (if is_store i then SSBStore k else SSBLoad k) \<and> 2 ^ k \<in> set access_sizes \<and>
    getTypeStoreSizeInBits L (pointer_operand i) mod 2 ^ 32 = 8 * 2 ^ k"
proof -
  let ?x = "getMemoryAccessFuncIndex L (pointer_operand i)"
  have x: "0 \<le> ?x" and cb: "cb = (if is_store i then SSBStore (nat ?x) else SSBLoad (nat ?x))"
    using assms by (auto simp: access_callback_def Let_def split: if_splits)
  have "nat ?x < 4"
    using access_index(1) [OF x] x by simp
  then have "(2 :: nat) ^ nat ?x \<in> set access_sizes"
    by (auto simp: access_sizes_def numeral_eq_Suc less_Suc_eq)
  then show ?thesis
    using cb access_index(2) [OF x] by blast
qed

section \<open>The two passes\<close>

definition recorded :: "options \<Rightarrow> ir_function \<Rightarrow> bool" where
  "recorded opts F \<longleftrightarrow>
     \<not> isIRQEntryOfTargetArch opts F \<and> \<not> isSyscallEntryOfTargetArch opts F \<and> \<not> ClFlushEntryOnly opts \<and>
     \<not> fn_no_ssb F \<and> fn_section F \<noteq> ''.noinstr.text'' \<and> \<not> fn_weak F"

lemma first_pass_file:
  assumes "\<not> ClSecondPass opts"
  shows "snd (run_pass opts L IFL Fs out) =
    out @ concat (map (\<lambda>n. n @ [newline]) (map fn_name (filter (recorded opts) Fs)))"
proof (induction Fs arbitrary: out)
  case (Cons F Fs)
  have "snd (snd (instrumentFunction opts L IFL F out)) =
      out @ (if recorded opts F then fn_name F @ [newline] else [])"
    using assms by (auto simp: instrumentFunction_def instrumentAll_def recorded_def appendFunctionName_def Let_def
        split: prod.splits)
  moreover have "snd (run_pass opts L IFL (F # Fs) out) =
      snd (run_pass opts L IFL Fs (snd (snd (instrumentFunction opts L IFL F out))))"
    by (simp add: split_beta)
  ultimately show ?case
    unfolding Cons.IH by simp
qed simp

lemma getlines_line: "newline \<notin> set n \<Longrightarrow> getlines acc (n @ newline # rest) = (acc @ n @ [newline]) # getlines [] rest"
  by (induction n arbitrary: acc) auto

lemma getlines_names:
  "\<forall>n\<in>set ns. newline \<notin> set n \<Longrightarrow>
   getlines [] (concat (map (\<lambda>n. n @ [newline]) ns)) = map (\<lambda>n. n @ [newline]) ns"
  by (induction ns) (simp_all add: getlines_line)

definition symbol_name :: "string \<Rightarrow> bool" where
  "symbol_name n \<longleftrightarrow> newline \<notin> set n \<and> CHR 0x00 \<notin> set n"

lemma c_string_symbol: "symbol_name n \<Longrightarrow> c_string n = n"
  by (auto simp: symbol_name_def c_string_def takeWhile_eq_all_conv)

lemma read_recorded:
  assumes "\<not> ClSecondPass opts" and "ClSecondPass opts'" and "\<forall>F\<in>set Fs. symbol_name (fn_name F)"
  shows "read_IFL opts' (snd (run_pass opts L IFL Fs [])) = fn_name ` {F \<in> set Fs. recorded opts F}"
proof -
  let ?ns = "map fn_name (filter (recorded opts) Fs)"
  have nl: "\<forall>n\<in>set ?ns. newline \<notin> set n" and s: "\<forall>n\<in>set ?ns. c_string n = n"
    using assms(3) c_string_symbol by (auto simp: symbol_name_def)
  then have "read_IFL opts' (snd (run_pass opts L IFL Fs [])) = (\<lambda>n. c_string n) ` set ?ns"
    using assms(2) unfolding read_IFL_def first_pass_file [OF assms(1)] append_Nil getlines_names [OF nl]
    by (simp add: image_image)
  also have "\<dots> = set ?ns"
    using s by force
  finally show ?thesis by auto
qed

section \<open>Entry functions\<close>

lemma flush_only_site:
  assumes "ClInstrumentFlush opts"
  shows "emulation (snd (instrumentFlushOnly opts F d) r) = None"
    and "d \<Longrightarrow> ([SSBFlush, SSBLfence], False) \<in> set (guards (snd (instrumentFlushOnly opts F d) (0, length (hd (fn_blocks F)) - 1)))"
    and "d \<Longrightarrow> 0 < b \<Longrightarrow> b < length (fn_blocks F) \<Longrightarrow> ReturnInst \<in> set (fn_blocks F ! b) \<Longrightarrow>
      ([SSBFlush, SSBLfence], False) \<in> set (guards (snd (instrumentFlushOnly opts F d) (b, first_non_phi (fn_blocks F ! b))))"
proof -
  define fin where "fin = (0 :: nat, length (hd (fn_blocks F)) - 1)"
  define rets where "rets = concat (map (\<lambda>(b, bb). map (\<lambda>i. (if b = 0 then fin else (b, first_non_phi bb), i))
      (filter (\<lambda>i. i = ReturnInst) bb)) (enumerate 0 (fn_blocks F)))"
  have p: "snd (instrumentFlushOnly opts F True) = snd (instrument_each (instrumentFlush opts) ((fin, ReturnInst) # rets)
      (False, instrumentHelper fin [SSBFlush, SSBLfence] False (\<lambda>_. bare_site)))"
    using assms unfolding rets_def fin_def
    by (simp add: instrumentFlushOnly_def Let_def instrumentFlush_def del: One_nat_def)
  show "emulation (snd (instrumentFlushOnly opts F d) r) = None"
  proof (cases d)
    case True
    then show ?thesis by (simp add: p each_flush [OF assms] bare_site_def del: instrument_each.simps)
  qed (simp add: instrumentFlushOnly_def bare_site_def)
  show "([SSBFlush, SSBLfence], False) \<in> set (guards (snd (instrumentFlushOnly opts F d) (0, length (hd (fn_blocks F)) - 1)))" if d
    using that by (simp add: p each_flush [OF assms] fin_def del: instrument_each.simps)
  show "([SSBFlush, SSBLfence], False) \<in> set (guards (snd (instrumentFlushOnly opts F d) (b, first_non_phi (fn_blocks F ! b))))"
    if d "0 < b" "b < length (fn_blocks F)" "ReturnInst \<in> set (fn_blocks F ! b)"
  proof -
    have "(b, fn_blocks F ! b) \<in> set (enumerate 0 (fn_blocks F))"
      using that(3) by (simp add: in_set_enumerate_eq)
    then have "((b, first_non_phi (fn_blocks F ! b)), ReturnInst) \<in> set rets"
      unfolding rets_def set_concat set_map by (rule UN_I [OF imageI]) (use that(2,4) in auto)
    then have "([SSBFlush, SSBLfence], False) \<in> set (groups_at (b, first_non_phi (fn_blocks F ! b)) ([SSBFlush, SSBLfence], False) rets)"
      by (rule groups_at_mem)
    then show ?thesis
      using that(1) by (simp add: p each_flush [OF assms] del: instrument_each.simps)
  qed
qed

end
