(* ===== verification/Pso_Buffer.thy ===== *)
theory Pso_Buffer
  imports Ssb_Runtime
begin

text \<open>
  The partial-store-order runtime, \<^verbatim>\<open>runtime/PSOCallbacks.cpp\<close>: one queue of pending values per
  address, drained per address. The \<open>std::map\<close> from addresses to queues is an association list
  in key order, because \<open>flushAll\<close> walks it in that order. The runtime implements
  \<open>thread_memory\<close> for aligned eight-byte accesses.
\<close>

section \<open>Ordered maps\<close>

fun omap_put :: "'k::linorder \<Rightarrow> 'v \<Rightarrow> ('k \<times> 'v) list \<Rightarrow> ('k \<times> 'v) list" where
  "omap_put k v [] = [(k, v)]"
| "omap_put k v ((k', v') # m) =
     (if k < k' then (k, v) # (k', v') # m
      else if k = k' then (k, v) # m
      else (k', v') # omap_put k v m)"

definition omap_get :: "'k::linorder \<Rightarrow> ('k \<times> 'v list) list \<Rightarrow> 'v list" where
  "omap_get k m = (case map_of m k of None \<Rightarrow> [] | Some v \<Rightarrow> v)"

lemma map_of_omap_put [simp]: "map_of (omap_put k v m) = (map_of m)(k \<mapsto> v)"
  by (induction k v m rule: omap_put.induct) (auto simp: fun_eq_iff)

lemma omap_get_put [simp]: "omap_get k (omap_put k' v m) = (if k = k' then v else omap_get k m)"
  by (simp add: omap_get_def)

lemma set_omap_put [simp]: "fst ` set (omap_put k v m) = insert k (fst ` set m)"
  by (induction k v m rule: omap_put.induct) auto

lemma sorted_omap_put:
  "sorted_wrt (<) (map fst m) \<Longrightarrow> sorted_wrt (<) (map fst (omap_put k v m))"
proof (induction k v m rule: omap_put.induct)
  case (2 k v k' v' m)
  have "\<forall>x\<in>set (omap_put k v m). fst x \<in> insert k (fst ` set m)"
    using set_omap_put [of k v m] by blast
  then show ?case
    using 2 by (auto simp: image_iff)
qed simp

lemma sorted_distinct: "sorted_wrt (<) (ks :: 'k::linorder list) \<Longrightarrow> distinct ks"
  by (simp add: strict_sorted_iff)

section \<open>The store buffer\<close>

definition pso_kMaxBufferSize :: int where "pso_kMaxBufferSize = 16"

record pso_buffer =
  pso_bufferSize :: int
  pso_storebuffer :: "(u64 \<times> u64 list) list"

definition empty_pso :: pso_buffer where
  "empty_pso = \<lparr>pso_bufferSize = 0, pso_storebuffer = []\<rparr>"

definition load64 :: "(u64 \<Rightarrow> u8) \<Rightarrow> u64 \<Rightarrow> u64" where
  "load64 m a = of_le_bytes (read_bytes a 8 m)"

definition store64 :: "u64 \<Rightarrow> u64 \<Rightarrow> (u64 \<Rightarrow> u8) \<Rightarrow> u64 \<Rightarrow> u8" where
  "store64 a v m = write_bytes a (le_bytes 8 v) m"

text \<open>\<^verbatim>\<open>_storebuffer[addr]\<close>: indexing creates the queue when it is missing.\<close>

definition queue_of :: "pso_buffer runtime \<Rightarrow> nat \<Rightarrow> u64 \<Rightarrow> u64 list" where
  "queue_of s t addr = omap_get addr (pso_storebuffer (rt_buffer s t))"

definition set_queue :: "nat \<Rightarrow> u64 \<Rightarrow> u64 list \<Rightarrow> pso_buffer runtime \<Rightarrow> pso_buffer runtime" where
  "set_queue t addr vs = upd_buffer t (\<lambda>b. b\<lparr>pso_storebuffer := omap_put addr vs (pso_storebuffer b)\<rparr>)"

definition index_queue :: "pso_buffer runtime \<Rightarrow> nat \<Rightarrow> u64 \<Rightarrow> u64 list \<times> pso_buffer runtime" where
  "index_queue s t addr = (let vs = queue_of s t addr in (vs, set_queue t addr vs s))"

fun flush_queue :: "nat \<Rightarrow> u64 \<Rightarrow> u64 list \<Rightarrow> (u64 \<Rightarrow> u8) \<Rightarrow> u64 list \<times> (u64 \<Rightarrow> u8)" where
  "flush_queue 0 addr vs m = (vs, m)"
| "flush_queue (Suc n) addr [] m = ([], m)"
| "flush_queue (Suc n) addr (v # vs) m = flush_queue n addr vs (store64 addr v m)"

definition pso_flush :: "pso_buffer runtime \<Rightarrow> nat \<Rightarrow> u64 \<Rightarrow> int \<Rightarrow> pso_buffer runtime" where
  "pso_flush s t addr n =
     (case index_queue s t addr of (vs, s) \<Rightarrow>
        if vs = [] then s
        else case flush_queue (nat n) addr vs (rt_mem s) of
               (vs', m') \<Rightarrow> set_queue t addr vs' (s\<lparr>rt_mem := m'\<rparr>))"

definition drain_queue :: "u64 \<times> u64 list \<Rightarrow> (u64 \<Rightarrow> u8) \<Rightarrow> u64 \<Rightarrow> u8" where
  "drain_queue = (\<lambda>(addr, vs). fold (store64 addr) vs)"

definition pso_flushAll :: "pso_buffer runtime \<Rightarrow> nat \<Rightarrow> pso_buffer runtime" where
  "pso_flushAll s t =
     upd_buffer t (\<lambda>b. b\<lparr>pso_storebuffer := [], pso_bufferSize := 0\<rparr>)
       (s\<lparr>rt_mem := fold drain_queue (pso_storebuffer (rt_buffer s t)) (rt_mem s)\<rparr>)"

text \<open>The count is an unsigned 32-bit value passed as a signed \<^verbatim>\<open>int\<close>.\<close>

definition pso_flushAfterInsn :: "pso_buffer runtime \<Rightarrow> nat \<Rightarrow> u64 \<Rightarrow> pso_buffer runtime res" where
  "pso_flushAfterInsn s t addr =
     (if pso_kMaxBufferSize \<le> pso_bufferSize (rt_buffer s t) then Ok (pso_flushAll s t)
      else if 0 < inputSize (rt_input s)
      then res_bind (input_next (rt_input s))
             (\<lambda>(n, iv). Ok (pso_flush (s\<lparr>rt_input := iv\<rparr>) t addr (sint n)))
      else Ok s)"

definition pso_retrieve :: "pso_buffer runtime \<Rightarrow> nat \<Rightarrow> u64 \<Rightarrow> (u64 \<times> pso_buffer runtime) res" where
  "pso_retrieve s t addr =
     (case index_queue s t addr of (vs, s) \<Rightarrow>
        let val = (if length vs = 0 then load64 (rt_mem s) addr else last vs)
        in res_bind (pso_flushAfterInsn s t addr) (\<lambda>s. Ok (val, s)))"

definition pso_store :: "pso_buffer runtime \<Rightarrow> nat \<Rightarrow> u64 \<Rightarrow> u64 \<Rightarrow> pso_buffer runtime res" where
  "pso_store s t addr val =
     (case index_queue s t addr of (vs, s) \<Rightarrow>
        let s = set_queue t addr (vs @ [val]) s;
            s = upd_buffer t (\<lambda>b. b\<lparr>pso_bufferSize := pso_bufferSize b + 1\<rparr>) s
        in pso_flushAfterInsn s t addr)"

definition load_callback_pso :: "pso_buffer load_impl" where
  "load_callback_pso s t addr sz = pso_retrieve s t addr"

definition store_callback_pso :: "pso_buffer store_impl" where
  "store_callback_pso s t addr val sz = pso_store s t addr val"

definition flush_callback_pso :: "pso_buffer flush_impl" where
  "flush_callback_pso s t = Ok (pso_flushAll s t)"

text \<open>The entry points the instrumented code calls.\<close>

definition ssb_pso_store :: "pso_buffer runtime \<Rightarrow> nat \<Rightarrow> u64 \<Rightarrow> u64 \<Rightarrow> nat \<Rightarrow> pso_buffer runtime res" where
  "ssb_pso_store s t addr val bytes = ssb_store store_callback_pso bytes s t addr val"

definition ssb_pso_load :: "pso_buffer runtime \<Rightarrow> nat \<Rightarrow> u64 \<Rightarrow> nat \<Rightarrow> (u64 \<times> pso_buffer runtime) res" where
  "ssb_pso_load s t addr bytes = ssb_load load_callback_pso bytes s t addr"

definition ssb_pso_flush :: "pso_buffer runtime \<Rightarrow> nat \<Rightarrow> pso_buffer runtime res" where
  "ssb_pso_flush s t = flush_callback_serialized flush_callback_pso s t"

definition ssb_pso_feedinput :: "pso_buffer runtime \<Rightarrow> u32 list \<Rightarrow> pso_buffer runtime res" where
  "ssb_pso_feedinput s v = feedinput_callback_serialized s v"

definition pso_start :: "(u64 \<Rightarrow> u8) \<Rightarrow> pso_buffer runtime" where
  "pso_start m = \<lparr>rt_mem = m, rt_input = zero_input, rt_locked = False, rt_buffer = (\<lambda>_. empty_pso)\<rparr>"

section \<open>Aligned accesses\<close>

definition word_of :: "u64 \<Rightarrow> u64" where "word_of a = a AND NOT 7"

definition aligned8 :: "u64 \<Rightarrow> bool" where "aligned8 a \<longleftrightarrow> a AND 7 = 0"

lemma word_of_split: "word_of a + (a AND 7) = a"
proof -
  have "word_of a + (a AND 7) = word_of a OR (a AND 7)"
    by (rule disjunctive_add) (auto simp: word_of_def bit_simps)
  also have "\<dots> = a"
    unfolding word_of_def by (rule bit_word_eqI) (auto simp: bit_simps)
  finally show ?thesis .
qed

lemma word_of_aligned: "aligned8 p \<Longrightarrow> word_of p = p"
  using word_of_split [of p] by (simp add: aligned8_def)

lemma in_word_iff:
  assumes "aligned8 p"
  shows "unat (a - p) < 8 \<longleftrightarrow> word_of a = p"
proof
  assume "unat (a - p) < 8"
  then have d: "a - p \<le> 7"
    by (simp add: word_le_nat_alt)
  have m: "(a - p) AND 7 = a - p"
  proof -
    have "unat ((a - p) mod 8) = unat (a - p)"
      using d by (simp add: unat_mod_distrib word_le_nat_alt)
    then have "take_bit 3 (a - p) = a - p"
      by (simp add: take_bit_eq_mod word_unat_eq_iff)
    moreover have "(7 :: u64) = mask 3" by (simp add: mask_eq_decr_exp)
    ultimately show ?thesis by (simp add: take_bit_eq_mask)
  qed
  have "p AND ((a - p) AND 7) = (p AND 7) AND (a - p)"
    by (simp only: ac_simps)
  then have z: "p AND (a - p) = 0"
    using assms unfolding m aligned8_def by simp
  have "p + (a - p) = p OR (a - p)"
  proof (rule disjunctive_add)
    fix n
    have "bit (p AND (a - p)) n = bit (0 :: u64) n"
      unfolding z by (rule refl)
    then show "\<not> bit p n \<or> \<not> bit (a - p) n"
      by (simp add: bit_and_iff)
  qed
  then have "a = p OR (a - p)"
    by simp
  then have "word_of a = (p OR ((a - p) AND 7)) AND NOT 7"
    unfolding word_of_def m by simp
  also have "\<dots> = p AND NOT 7"
    by (rule bit_word_eqI) (auto simp: bit_simps)
  finally show "word_of a = p"
    using word_of_aligned [OF assms] by (simp add: word_of_def)
next
  assume e: "word_of a = p"
  have "word_of a + (a AND 7) = a"
    by (rule word_of_split)
  then have "a - p = a AND 7"
    using e by (metis add_diff_cancel_left')
  moreover have "a AND 7 \<le> 7"
    by (rule word_and_le1)
  ultimately show "unat (a - p) < 8"
    by (simp add: word_le_nat_alt)
qed

lemma aligned_word_of: "aligned8 (word_of a)"
  unfolding aligned8_def word_of_def by (rule bit_word_eqI) (auto simp: bit_simps)

lemma store64_at:
  assumes "aligned8 p"
  shows "store64 p v m a = (if word_of a = p then le_bytes 8 v ! unat (a - p) else m a)"
  using in_word_iff [OF assms, of a] by (simp add: store64_def write_bytes_def)

lemma read_word_cong:
  assumes "aligned8 p" and "\<And>a. word_of a = p \<Longrightarrow> m a = m' a"
  shows "read_bytes p 8 m = read_bytes p 8 m'"
proof -
  have "m (p + of_nat i) = m' (p + of_nat i)" if "i < 8" for i
    using that by (intro assms(2)) (simp add: in_word_iff [OF assms(1), symmetric] unat_of_nat)
  then show ?thesis
    by (simp add: read_bytes_def)
qed

section \<open>The thread's view\<close>

definition pso_view :: "nat \<Rightarrow> pso_buffer runtime \<Rightarrow> u64 \<Rightarrow> u8" where
  "pso_view t s a =
     (if queue_of s t (word_of a) = [] then rt_mem s a
      else le_bytes 8 (last (queue_of s t (word_of a))) ! unat (a - word_of a))"

definition pending :: "(u64 \<times> u64 list) list \<Rightarrow> int" where
  "pending m = (\<Sum>(k, vs)\<leftarrow>m. int (length vs))"

definition pso_wf :: "nat \<Rightarrow> pso_buffer runtime \<Rightarrow> bool" where
  "pso_wf t s \<longleftrightarrow>
     input_ok (rt_input s) \<and> sorted_wrt (<) (map fst (pso_storebuffer (rt_buffer s t))) \<and>
     (\<forall>p\<in>fst ` set (pso_storebuffer (rt_buffer s t)). aligned8 p) \<and>
     pending (pso_storebuffer (rt_buffer s t)) \<le> pso_bufferSize (rt_buffer s t)"

definition pso_inv :: "nat \<Rightarrow> pso_buffer runtime \<Rightarrow> bool" where
  "pso_inv t s \<longleftrightarrow> \<not> rt_locked s \<and> pso_wf t s \<and> pso_bufferSize (rt_buffer s t) < pso_kMaxBufferSize"

definition word_access :: "u64 \<Rightarrow> nat \<Rightarrow> bool" where
  "word_access a n \<longleftrightarrow> aligned8 a \<and> n = 8"

lemma pending_put:
  "sorted_wrt (<) (map fst m) \<Longrightarrow>
   pending (omap_put k vs m) = pending m - int (length (omap_get k m)) + int (length vs)"
proof (induction k vs m rule: omap_put.induct)
  case (2 k v k' v' m)
  then have "k < k' \<Longrightarrow> map_of m k = None"
    by (auto simp: map_of_eq_None_iff)
  then show ?case
    using 2 by (auto simp: pending_def omap_get_def)
qed (simp add: pending_def omap_get_def)

lemma pending_nonneg: "0 \<le> pending m"
  by (induction m) (auto simp: pending_def)

lemma flush_queue_eq: "flush_queue n a vs m = (drop n vs, fold (store64 a) (take n vs) m)"
  by (induction n a vs m rule: flush_queue.induct) simp_all

lemma store64_twice: "store64 a v (store64 a u m) = store64 a v m"
  by (simp add: store64_def write_bytes_over)

lemma fold_store64: "fold (store64 a) vs m = (if vs = [] then m else store64 a (last vs) m)"
  by (induction vs arbitrary: m) (simp_all add: store64_twice)

lemma set_queue_simps [simp]:
  "rt_mem (set_queue t a vs s) = rt_mem s" "rt_input (set_queue t a vs s) = rt_input s"
  "rt_locked (set_queue t a vs s) = rt_locked s"
  "pso_bufferSize (rt_buffer (set_queue t a vs s) u) = pso_bufferSize (rt_buffer s u)"
  "queue_of (set_queue t a vs s) t b = (if b = a then vs else queue_of s t b)"
  by (simp_all add: set_queue_def queue_of_def)

lemma queue_of_simps [simp]:
  "queue_of (s\<lparr>rt_mem := m\<rparr>) t b = queue_of s t b" "queue_of (s\<lparr>rt_input := iv\<rparr>) t b = queue_of s t b"
  "queue_of (s\<lparr>rt_locked := l\<rparr>) t b = queue_of s t b"
  by (simp_all add: queue_of_def)

lemma pso_wf_set_queue:
  assumes "pso_wf t s" and "aligned8 a"
    and "int (length vs) \<le> int (length (queue_of s t a)) + d"
    and "rt_buffer s' t = (rt_buffer s t)\<lparr>pso_storebuffer := omap_put a vs (pso_storebuffer (rt_buffer s t)),
           pso_bufferSize := pso_bufferSize (rt_buffer s t) + d\<rparr>"
    and "input_ok (rt_input s')"
  shows "pso_wf t s'"
  using assms by (auto simp: pso_wf_def queue_of_def pending_put sorted_omap_put)

lemma drain_all:
  assumes "sorted_wrt (<) (map fst kvs)" and "\<forall>p\<in>fst ` set kvs. aligned8 p"
  shows "fold drain_queue kvs m a =
    (let vs = omap_get (word_of a) kvs in if vs = [] then m a else le_bytes 8 (last vs) ! unat (a - word_of a))"
  using assms
proof (induction kvs arbitrary: m)
  case Nil
  then show ?case by (simp add: omap_get_def)
next
  case (Cons kv kvs)
  obtain k vs where kv: "kv = (k, vs)" by (cases kv)
  have "map_of kvs k = None"
    using Cons.prems kv by (auto simp: map_of_eq_None_iff)
  moreover have "drain_queue kv m a = (if vs = [] \<or> word_of a \<noteq> k then m a else le_bytes 8 (last vs) ! unat (a - k))"
    using Cons.prems kv by (simp add: drain_queue_def fold_store64 store64_at)
  moreover have "fold drain_queue kvs (drain_queue kv m) a =
      (let vs = omap_get (word_of a) kvs
       in if vs = [] then drain_queue kv m a else le_bytes 8 (last vs) ! unat (a - word_of a))"
    by (rule Cons.IH) (use Cons.prems in simp_all)
  ultimately show ?case
    unfolding kv by (simp add: omap_get_def Let_def)
qed

lemma pso_flushAll_spec:
  assumes "pso_wf t s"
  shows "rt_mem (pso_flushAll s t) = pso_view t s"
    and "pso_view t (pso_flushAll s t) = pso_view t s"
    and "pso_wf t (pso_flushAll s t)"
    and "pso_bufferSize (rt_buffer (pso_flushAll s t) t) = 0"
    and "rt_locked (pso_flushAll s t) = rt_locked s"
proof -
  have e: "queue_of (pso_flushAll s t) t a = []" for a
    by (simp add: queue_of_def pso_flushAll_def omap_get_def)
  show m: "rt_mem (pso_flushAll s t) = pso_view t s"
    using assms by (auto simp: fun_eq_iff pso_flushAll_def pso_view_def queue_of_def pso_wf_def drain_all Let_def)
  show "pso_view t (pso_flushAll s t) = pso_view t s"
    by (simp add: fun_eq_iff pso_view_def [of t "pso_flushAll s t"] e m)
  show "pso_wf t (pso_flushAll s t)" "pso_bufferSize (rt_buffer (pso_flushAll s t) t) = 0"
    "rt_locked (pso_flushAll s t) = rt_locked s"
    using assms by (simp_all add: pso_wf_def pso_flushAll_def pending_def)
qed

lemma pso_flush_view:
  assumes "aligned8 a"
  shows "pso_view t (pso_flush s t a n) = pso_view t s"
proof -
  let ?vs = "queue_of s t a"
  let ?k = "nat n"
  define s' where "s' = pso_flush s t a n"
  have q: "queue_of s' t b = (if b = a then drop ?k ?vs else queue_of s t b)" for b
    unfolding s'_def by (simp add: pso_flush_def index_queue_def Let_def flush_queue_eq)
  have m: "rt_mem s' = (if take ?k ?vs = [] then rt_mem s else store64 a (last (take ?k ?vs)) (rt_mem s))"
    unfolding s'_def by (simp add: pso_flush_def index_queue_def Let_def flush_queue_eq fold_store64)
  have "pso_view t s' x = pso_view t s x" for x
  proof (cases "word_of x = a")
    case True
    then show ?thesis
      by (cases "drop ?k ?vs = []") (auto simp: pso_view_def Let_def q m store64_at [OF assms] last_drop)
  next
    case False
    then show ?thesis
      by (simp add: pso_view_def q m store64_at [OF assms])
  qed
  then show ?thesis
    by (auto simp: s'_def)
qed

lemma pso_flush_wf:
  assumes "pso_wf t s" and "aligned8 a"
  shows "pso_wf t (pso_flush s t a n)"
proof -
  let ?vs = "queue_of s t a"
  have "omap_put a vs' (omap_put a vs m) = omap_put a vs' m" for vs' vs :: "u64 list" and m
    by (induction a vs m rule: omap_put.induct) auto
  then have b: "rt_buffer (pso_flush s t a n) t = (rt_buffer s t)\<lparr>pso_storebuffer :=
      omap_put a (drop (nat n) ?vs) (pso_storebuffer (rt_buffer s t)),
      pso_bufferSize := pso_bufferSize (rt_buffer s t) + 0\<rparr>"
    by (simp add: pso_flush_def index_queue_def Let_def flush_queue_eq set_queue_def)
  have "input_ok (rt_input (pso_flush s t a n))"
    using assms(1) by (simp add: pso_wf_def pso_flush_def index_queue_def Let_def flush_queue_eq)
  from pso_wf_set_queue [OF assms _ b this] show ?thesis
    by simp
qed

lemma pso_flush_frame:
  "pso_bufferSize (rt_buffer (pso_flush s t a n) u) = pso_bufferSize (rt_buffer s u)"
  "rt_locked (pso_flush s t a n) = rt_locked s"
  by (simp_all add: pso_flush_def index_queue_def Let_def flush_queue_eq)

lemma pso_after_insn:
  assumes "pso_wf t s" and "aligned8 a"
  shows "\<exists>s'. pso_flushAfterInsn s t a = Ok s' \<and> pso_wf t s' \<and> pso_view t s' = pso_view t s \<and>
    rt_locked s' = rt_locked s \<and> pso_bufferSize (rt_buffer s' t) < pso_kMaxBufferSize"
proof (cases "pso_kMaxBufferSize \<le> pso_bufferSize (rt_buffer s t)")
  case True
  then show ?thesis
    using pso_flushAll_spec [OF assms(1)] by (simp add: pso_flushAfterInsn_def pso_kMaxBufferSize_def)
next
  case full: False
  show ?thesis
  proof (cases "0 < inputSize (rt_input s)")
    case True
    then obtain n iv where iv: "input_next (rt_input s) = Ok (n, iv)" "input_ok iv"
      using input_next_ok [of "rt_input s"] assms(1) by (auto simp: pso_wf_def)
    let ?s = "s\<lparr>rt_input := iv\<rparr>"
    have "pso_wf t ?s" and "pso_view t ?s = pso_view t s"
      using assms(1) iv(2) by (simp_all add: pso_wf_def pso_view_def fun_eq_iff)
    then show ?thesis
      using full True iv pso_flush_wf [of t ?s a "sint n"] assms(2)
      by (simp add: pso_flushAfterInsn_def pso_flush_view pso_flush_frame)
  next
    case False
    then show ?thesis
      using full assms by (simp add: pso_flushAfterInsn_def)
  qed
qed

lemma pso_view_set_queue:
  assumes "aligned8 a"
  shows "pso_view t (set_queue t a (vs @ [v]) s) = store64 a v (pso_view t s)"
proof
  fix x
  show "pso_view t (set_queue t a (vs @ [v]) s) x = store64 a v (pso_view t s) x"
    unfolding store64_at [OF assms] by (simp add: pso_view_def Let_def)
qed

lemma pso_view_word:
  assumes "aligned8 a"
  shows "of_le_bytes (read_bytes a 8 (pso_view t s)) =
    (if queue_of s t a = [] then load64 (rt_mem s) a else last (queue_of s t a))"
proof (cases "queue_of s t a = []")
  case True
  have "read_bytes a 8 (pso_view t s) = read_bytes a 8 (rt_mem s)"
    by (rule read_word_cong [OF assms]) (use True in \<open>simp add: pso_view_def\<close>)
  then show ?thesis using True by (simp add: load64_def)
next
  case False
  have "read_bytes a 8 (pso_view t s) = read_bytes a 8 (store64 a (last (queue_of s t a)) (rt_mem s))"
    by (rule read_word_cong [OF assms]) (use False in \<open>simp add: pso_view_def store64_at [OF assms]\<close>)
  then show ?thesis
    using False by (simp add: store64_def read_write_le of_le_bytes_le_bytes)
qed

lemma pso_view_lock [simp]: "pso_view t (s\<lparr>rt_locked := l\<rparr>) = pso_view t s"
  by (simp add: pso_view_def fun_eq_iff)

lemma pso_wf_lock [simp]: "pso_wf t (s\<lparr>rt_locked := l\<rparr>) = pso_wf t s"
  by (simp add: pso_wf_def)

lemma pso_wf_touch:
  assumes "pso_wf t s" and "aligned8 a"
  shows "pso_wf t (set_queue t a (queue_of s t a) s)"
  using assms(1) by (intro pso_wf_set_queue [OF assms, of "queue_of s t a" 0])
    (simp_all add: set_queue_def pso_wf_def)

lemma pso_view_touch: "pso_view t (set_queue t a (queue_of s t a) s) = pso_view t s"
  by (simp add: pso_view_def fun_eq_iff)

lemma pso_retrieve_spec:
  assumes "pso_wf t s" and "aligned8 a"
  shows "\<exists>s'. pso_retrieve s t a = Ok (of_le_bytes (read_bytes a 8 (pso_view t s)), s') \<and> pso_wf t s' \<and>
    pso_view t s' = pso_view t s \<and> pso_bufferSize (rt_buffer s' t) < pso_kMaxBufferSize"
  using pso_after_insn [OF pso_wf_touch [OF assms] assms(2)]
  by (auto simp: pso_retrieve_def index_queue_def pso_view_word [OF assms(2)] pso_view_touch Let_def)

lemma pso_store_spec:
  assumes "pso_wf t s" and "aligned8 a"
  shows "\<exists>s'. pso_store s t a v = Ok s' \<and> pso_wf t s' \<and> pso_view t s' = store64 a v (pso_view t s) \<and>
    pso_bufferSize (rt_buffer s' t) < pso_kMaxBufferSize"
proof -
  let ?vs = "queue_of s t a"
  let ?s1 = "set_queue t a ?vs s"
  let ?s2 = "upd_buffer t (\<lambda>b. b\<lparr>pso_bufferSize := pso_bufferSize b + 1\<rparr>) (set_queue t a (?vs @ [v]) ?s1)"
  have q: "queue_of ?s1 t a = ?vs" and i: "input_ok (rt_input ?s2)"
    using assms(1) by (simp_all add: pso_wf_def)
  have wf: "pso_wf t ?s2"
    by (rule pso_wf_set_queue [OF pso_wf_touch [OF assms] assms(2) _ _ i, of "?vs @ [v]" 1])
      (unfold q, simp_all add: set_queue_def)
  have "pso_view t ?s2 = pso_view t (set_queue t a (?vs @ [v]) ?s1)"
    by (simp add: pso_view_def queue_of_def fun_eq_iff)
  also have "\<dots> = store64 a v (pso_view t s)"
    by (simp add: pso_view_set_queue [OF assms(2)] pso_view_touch)
  finally show ?thesis
    using pso_after_insn [OF wf assms(2)] by (auto simp: pso_store_def index_queue_def Let_def)
qed

section \<open>The runtime as a thread's memory\<close>

lemma pso_load_law:
  assumes "pso_inv t s" and "word_access a n"
  shows "\<exists>s'. ssb_pso_load s t a n = Ok (of_le_bytes (read_bytes a n (pso_view t s)), s') \<and>
    pso_inv t s' \<and> pso_view t s' = pso_view t s"
proof -
  have "pso_wf t (s\<lparr>rt_locked := True\<rparr>)" and "aligned8 a" and "n = 8" and free: "\<not> rt_locked s"
    using assms by (simp_all add: pso_inv_def word_access_def)
  from pso_retrieve_spec [OF this(1,2)] this(3) free show ?thesis
    by (auto simp: ssb_pso_load_def ssb_load_def serialized_free load_callback_pso_def  pso_inv_def)
qed

lemma pso_store_law:
  assumes "pso_inv t s" and "word_access a n"
  shows "\<exists>s'. ssb_pso_store s t a v n = Ok s' \<and> pso_inv t s' \<and>
    pso_view t s' = write_bytes a (le_bytes n v) (pso_view t s)"
proof -
  have "pso_wf t (s\<lparr>rt_locked := True\<rparr>)" and "aligned8 a" and "n = 8" and free: "\<not> rt_locked s"
    using assms by (simp_all add: pso_inv_def word_access_def)
  from pso_store_spec [OF this(1,2), of v] this(3) free show ?thesis
    by (auto simp: ssb_pso_store_def ssb_store_def serialized_free store_callback_pso_def 
        store64_def pso_inv_def)
qed

lemma pso_fence_law:
  assumes "pso_inv t s"
  shows "\<exists>s'. ssb_pso_flush s t = Ok s' \<and> pso_inv t s' \<and> pso_view t s' = pso_view t s \<and>
    rt_mem s' = pso_view t s"
  using assms pso_flushAll_spec [of t "s\<lparr>rt_locked := True\<rparr>"]
  by (simp add: pso_inv_def ssb_pso_flush_def serialized_free flush_callback_pso_def pso_kMaxBufferSize_def)

interpretation pso: thread_memory "pso_inv t" word_access "pso_view t" rt_mem
  "\<lambda>s. ssb_pso_load s t" "\<lambda>s. ssb_pso_store s t" "\<lambda>s. ssb_pso_flush s t" for t
  by unfold_locales (rule pso_load_law pso_store_law pso_fence_law; assumption)+

lemma pso_start_inv: "pso_inv t (pso_start m)" and pso_start_view: "pso_view t (pso_start m) = m"
  by (simp_all add: pso_inv_def pso_wf_def pso_start_def empty_pso_def pending_def input_ok_zero
      pso_kMaxBufferSize_def pso_view_def queue_of_def omap_get_def fun_eq_iff)

end
