(* ===== verification/Tso_Buffer.thy ===== *)
theory Tso_Buffer
  imports Ssb_Runtime
begin

text \<open>
  The total-store-order runtime, \<^verbatim>\<open>runtime/TSOCallbacks.cpp\<close>: one queue of pending stores in program
  order, and beside it the newest pending byte of every address for the thread's own loads. The runtime
  implements \<open>thread_memory\<close> for one- and eight-byte accesses of a thread that runs alone with no
  input vector. What it does at the other sizes, with an input vector and with a second thread is
  stated at the end.
\<close>

section \<open>The store buffer\<close>

definition tso_kMaxBufferSize :: int where "tso_kMaxBufferSize = 16"

record Entry =
  entry_value :: u64
  entry_size :: nat

record tso_buffer =
  last_entry :: "u64 \<Rightarrow> u8 option"
  indexed :: "(u64 \<times> Entry) list"
  tso_bufferSize :: int

definition empty_tso :: tso_buffer where
  "empty_tso = \<lparr>last_entry = (\<lambda>_. None), indexed = [], tso_bufferSize = 0\<rparr>"

text \<open>\<^verbatim>\<open>(char)entry.value\<close> keeps the low byte and extends its sign; the stores of two and four bytes go through it.\<close>

definition sign_char :: "u64 \<Rightarrow> u64" where
  "sign_char v = scast (ucast v :: u8)"

definition tso_flushEntry :: "u64 \<times> Entry \<Rightarrow> (u64 \<Rightarrow> u8) \<Rightarrow> u64 \<Rightarrow> u8" where
  "tso_flushEntry = (\<lambda>(addr, e) m.
     if entry_size e = 1 then write_bytes addr (le_bytes 1 (sign_char (entry_value e))) m
     else if entry_size e = 2 then write_bytes addr (le_bytes 2 (sign_char (entry_value e))) m
     else if entry_size e = 4 then write_bytes addr (le_bytes 4 (sign_char (entry_value e))) m
     else if entry_size e = 8 then write_bytes addr (le_bytes 8 (entry_value e)) m
     else m)"

definition erase_bytes :: "u64 \<Rightarrow> nat \<Rightarrow> (u64 \<Rightarrow> u8 option) \<Rightarrow> u64 \<Rightarrow> u8 option" where
  "erase_bytes base sz le = fold (\<lambda>j le. le(base + of_nat j := None)) [0..<sz] le"

fun flush_front ::
  "nat \<Rightarrow> (u64 \<Rightarrow> u8 option) \<times> (u64 \<times> Entry) list \<times> (u64 \<Rightarrow> u8) \<Rightarrow>
   (u64 \<Rightarrow> u8 option) \<times> (u64 \<times> Entry) list \<times> (u64 \<Rightarrow> u8)" where
  "flush_front 0 x = x"
| "flush_front (Suc n) (le, [], m) = (le, [], m)"
| "flush_front (Suc n) (le, e # es, m) =
     flush_front n (erase_bytes (fst e) (entry_size (snd e)) le, es, tso_flushEntry e m)"

definition tso_flushEntries :: "tso_buffer runtime \<Rightarrow> nat \<Rightarrow> int \<Rightarrow> tso_buffer runtime" where
  "tso_flushEntries s t n =
     (let b = rt_buffer s t
      in case flush_front (nat n) (last_entry b, indexed b, rt_mem s) of
           (le, es, m) \<Rightarrow> upd_buffer t (\<lambda>b. b\<lparr>last_entry := le, indexed := es\<rparr>) (s\<lparr>rt_mem := m\<rparr>))"

definition tso_flushAllEntries :: "tso_buffer runtime \<Rightarrow> nat \<Rightarrow> tso_buffer runtime" where
  "tso_flushAllEntries s t =
     upd_buffer t (\<lambda>b. b\<lparr>last_entry := (\<lambda>_. None), tso_bufferSize := 0\<rparr>)
       (s\<lparr>rt_mem := fold tso_flushEntry (indexed (rt_buffer s t)) (rt_mem s)\<rparr>)"

definition tso_flushAfterInsn :: "tso_buffer runtime \<Rightarrow> nat \<Rightarrow> tso_buffer runtime res" where
  "tso_flushAfterInsn s t =
     (if tso_kMaxBufferSize \<le> tso_bufferSize (rt_buffer s t) then Ok (tso_flushAllEntries s t)
      else if 0 < inputSize (rt_input s)
      then res_bind (input_next (rt_input s))
             (\<lambda>(n, iv). Ok (tso_flushEntries (s\<lparr>rt_input := iv\<rparr>) t (sint n)))
      else Ok s)"

text \<open>The local \<^verbatim>\<open>val\<close> is not initialised: \<open>junk\<close> is what the stack held, and shows through above the access size.\<close>

definition tso_retrieve :: "u64 \<Rightarrow> tso_buffer runtime \<Rightarrow> nat \<Rightarrow> u64 \<Rightarrow> nat \<Rightarrow> (u64 \<times> tso_buffer runtime) res" where
  "tso_retrieve junk s t addr sz =
     (let byte = (\<lambda>i. let a = addr + of_nat i
                      in case last_entry (rt_buffer s t) a of None \<Rightarrow> rt_mem s a | Some b \<Rightarrow> b);
          val = of_le_bytes (map byte [0..<sz] @ drop sz (le_bytes 8 junk))
      in res_bind (tso_flushAfterInsn s t) (\<lambda>s. Ok (val, s)))"

definition tso_store :: "tso_buffer runtime \<Rightarrow> nat \<Rightarrow> u64 \<Rightarrow> u64 \<Rightarrow> nat \<Rightarrow> tso_buffer runtime res" where
  "tso_store s t addr val sz =
     (let le = fold (\<lambda>i le. le(addr + of_nat i := Some (ucast (drop_bit (8 * i) val)))) [0..<sz]
                 (last_entry (rt_buffer s t));
          entry = \<lparr>entry_value = val, entry_size = sz\<rparr>;
          s = upd_buffer t (\<lambda>b. b\<lparr>last_entry := le, indexed := indexed b @ [(addr, entry)],
                                  tso_bufferSize := tso_bufferSize b + 1\<rparr>) s
      in tso_flushAfterInsn s t)"

definition load_callback_tso :: "u64 \<Rightarrow> tso_buffer load_impl" where
  "load_callback_tso junk s t addr sz = tso_retrieve junk s t addr sz"

definition store_callback_tso :: "tso_buffer store_impl" where
  "store_callback_tso s t addr val sz = tso_store s t addr val sz"

definition flush_callback_tso :: "tso_buffer flush_impl" where
  "flush_callback_tso s t = Ok (tso_flushAllEntries s t)"

definition ssb_tso_store :: "tso_buffer runtime \<Rightarrow> nat \<Rightarrow> u64 \<Rightarrow> u64 \<Rightarrow> nat \<Rightarrow> tso_buffer runtime res" where
  "ssb_tso_store s t addr val bytes = ssb_store store_callback_tso bytes s t addr val"

definition ssb_tso_load :: "u64 \<Rightarrow> tso_buffer runtime \<Rightarrow> nat \<Rightarrow> u64 \<Rightarrow> nat \<Rightarrow> (u64 \<times> tso_buffer runtime) res" where
  "ssb_tso_load junk s t addr bytes = ssb_load (load_callback_tso junk) bytes s t addr"

definition ssb_tso_flush :: "tso_buffer runtime \<Rightarrow> nat \<Rightarrow> tso_buffer runtime res" where
  "ssb_tso_flush s t = flush_callback_serialized flush_callback_tso s t"

definition ssb_tso_feedinput :: "tso_buffer runtime \<Rightarrow> u32 list \<Rightarrow> tso_buffer runtime res" where
  "ssb_tso_feedinput s v = feedinput_callback_serialized s v"

definition tso_start :: "(u64 \<Rightarrow> u8) \<Rightarrow> tso_buffer runtime" where
  "tso_start m = \<lparr>rt_mem = m, rt_input = zero_input, rt_locked = False, rt_buffer = (\<lambda>_. empty_tso)\<rparr>"

section \<open>Program order\<close>

text \<open>Draining takes stores from the front, so memory receives them in the order they were made.\<close>

lemma flush_front_eq:
  "\<exists>le'. flush_front n (le, es, m) = (le', drop n es, fold tso_flushEntry (take n es) m)"
proof (induction n arbitrary: le es m)
  case 0
  then show ?case by simp
next
  case (Suc n)
  then show ?case by (cases es) auto
qed

lemma tso_flushEntries_order:
  "rt_mem (tso_flushEntries s t n) = fold tso_flushEntry (take (nat n) (indexed (rt_buffer s t))) (rt_mem s)"
  "indexed (rt_buffer (tso_flushEntries s t n) t) = drop (nat n) (indexed (rt_buffer s t))"
  using flush_front_eq [of "nat n" "last_entry (rt_buffer s t)" "indexed (rt_buffer s t)" "rt_mem s"]
  by (auto simp: tso_flushEntries_def Let_def)

section \<open>The thread's view\<close>

definition tso_view :: "nat \<Rightarrow> tso_buffer runtime \<Rightarrow> u64 \<Rightarrow> u8" where
  "tso_view t s a = (case last_entry (rt_buffer s t) a of None \<Rightarrow> rt_mem s a | Some b \<Rightarrow> b)"

definition whole_size :: "nat \<Rightarrow> bool" where
  "whole_size n \<longleftrightarrow> n = 1 \<or> n = 8"

text \<open>Replaying the queue over memory gives the view.\<close>

definition tso_wf :: "nat \<Rightarrow> tso_buffer runtime \<Rightarrow> bool" where
  "tso_wf t s \<longleftrightarrow>
     inputSize (rt_input s) = 0 \<and> (\<forall>e\<in>set (indexed (rt_buffer s t)). whole_size (entry_size (snd e))) \<and>
     fold tso_flushEntry (indexed (rt_buffer s t)) (rt_mem s) = tso_view t s"

definition tso_inv :: "nat \<Rightarrow> tso_buffer runtime \<Rightarrow> bool" where
  "tso_inv t s \<longleftrightarrow> \<not> rt_locked s \<and> tso_wf t s \<and> tso_bufferSize (rt_buffer s t) < tso_kMaxBufferSize"

definition whole_access :: "u64 \<Rightarrow> nat \<Rightarrow> bool" where
  "whole_access a n \<longleftrightarrow> whole_size n"

lemma sign_char_byte: "le_bytes 1 (sign_char v) = le_bytes 1 v"
  by (auto simp: le_bytes_def sign_char_def intro!: bit_word_eqI simp: bit_simps)

lemma flush_whole: "whole_size (entry_size (snd e)) \<Longrightarrow>
  tso_flushEntry e m = write_bytes (fst e) (le_bytes (entry_size (snd e)) (entry_value (snd e))) m"
  by (auto simp: whole_size_def tso_flushEntry_def sign_char_byte [simplified] split_beta)

lemma offset_eq: "k < 2 ^ 64 \<Longrightarrow> x = a + of_nat k \<longleftrightarrow> unat (x - a) = k" for x a :: u64
proof
  show "unat (x - a) = k" if "k < 2 ^ 64" "x = a + of_nat k"
    using that by (simp add: unat_of_nat)
  show "x = a + of_nat k" if "unat (x - a) = k"
  proof -
    have "of_nat (unat (x - a)) = x - a" by simp
    then show ?thesis using that by (simp add: algebra_simps)
  qed
qed

lemma fold_bytes:
  "n \<le> 2 ^ 64 \<Longrightarrow> fold (\<lambda>i le. le(a + of_nat i := f i)) [0..<n] le x =
     (if unat (x - a) < n then f (unat (x - a)) else le x)" for a x :: u64
proof (induction n)
  case 0
  then show ?case by simp
next
  case (Suc n)
  then show ?case
    using offset_eq [of n x a] by (auto simp: less_Suc_eq)
qed

text \<open>Writing a queue twice is writing it once: each byte keeps its last writer.\<close>

lemma replay_cong:
  "\<forall>e\<in>set es. whole_size (entry_size (snd e)) \<Longrightarrow>
   fold tso_flushEntry es m a = m a \<or> (\<forall>m'. fold tso_flushEntry es m' a = fold tso_flushEntry es m a)"
proof (induction es rule: rev_induct)
  case Nil
  then show ?case by simp
next
  case (snoc e es)
  have w: "fold tso_flushEntry (es @ [e]) m' a =
      write_bytes (fst e) (le_bytes (entry_size (snd e)) (entry_value (snd e))) (fold tso_flushEntry es m') a" for m'
    using snoc.prems by (simp add: flush_whole)
  show ?case
  proof (cases "unat (a - fst e) < entry_size (snd e)")
    case True
    then show ?thesis unfolding w by (simp add: write_bytes_def)
  next
    case False
    then have o: "fold tso_flushEntry (es @ [e]) m' a = fold tso_flushEntry es m' a" for m'
      unfolding w by (simp add: write_bytes_def)
    show ?thesis
      unfolding o by (rule snoc.IH) (use snoc.prems in simp)
  qed
qed

lemma replay_local:
  "\<forall>e\<in>set es. whole_size (entry_size (snd e)) \<Longrightarrow> m1 a = m2 a \<Longrightarrow>
   fold tso_flushEntry es m1 a = fold tso_flushEntry es m2 a"
proof (induction es arbitrary: m1 m2)
  case Nil
  then show ?case by simp
next
  case (Cons e es)
  have "tso_flushEntry e m1 a = tso_flushEntry e m2 a"
    using Cons.prems by (simp add: flush_whole write_bytes_def)
  then have "fold tso_flushEntry es (tso_flushEntry e m1) a = fold tso_flushEntry es (tso_flushEntry e m2) a"
    by (rule Cons.IH [rotated]) (use Cons.prems(1) in simp)
  then show ?case by simp
qed

lemma replay_twice:
  assumes "\<forall>e\<in>set es. whole_size (entry_size (snd e))"
  shows "fold tso_flushEntry es (fold tso_flushEntry es m) = fold tso_flushEntry es m"
proof
  fix a
  show "fold tso_flushEntry es (fold tso_flushEntry es m) a = fold tso_flushEntry es m a"
    using replay_cong [OF assms, of m a]
  proof
    assume "fold tso_flushEntry es m a = m a"
    then show ?thesis by (rule replay_local [OF assms])
  next
    assume "\<forall>m'. fold tso_flushEntry es m' a = fold tso_flushEntry es m a"
    then show ?thesis by (rule spec)
  qed
qed

lemma tso_flushAll_spec:
  assumes "tso_wf t s"
  shows "rt_mem (tso_flushAllEntries s t) = tso_view t s"
    and "tso_view t (tso_flushAllEntries s t) = tso_view t s"
    and "tso_wf t (tso_flushAllEntries s t)"
    and "tso_bufferSize (rt_buffer (tso_flushAllEntries s t) t) = 0"
    and "rt_locked (tso_flushAllEntries s t) = rt_locked s"
proof -
  have n: "last_entry (rt_buffer (tso_flushAllEntries s t) t) = (\<lambda>_. None)"
    "indexed (rt_buffer (tso_flushAllEntries s t) t) = indexed (rt_buffer s t)"
    "rt_input (tso_flushAllEntries s t) = rt_input s"
    by (simp_all add: tso_flushAllEntries_def)
  show m: "rt_mem (tso_flushAllEntries s t) = tso_view t s"
    using assms by (simp add: tso_flushAllEntries_def tso_wf_def)
  show v: "tso_view t (tso_flushAllEntries s t) = tso_view t s"
    by (simp add: fun_eq_iff tso_view_def [of t "tso_flushAllEntries s t"] n m)
  have "fold tso_flushEntry (indexed (rt_buffer s t)) (tso_view t s) = tso_view t s"
    using assms replay_twice [of "indexed (rt_buffer s t)" "rt_mem s"] by (simp add: tso_wf_def)
  then show "tso_wf t (tso_flushAllEntries s t)"
    using assms by (simp add: tso_wf_def n m v)
  show "tso_bufferSize (rt_buffer (tso_flushAllEntries s t) t) = 0"
    "rt_locked (tso_flushAllEntries s t) = rt_locked s"
    by (simp_all add: tso_flushAllEntries_def)
qed

lemma tso_after_insn:
  assumes "tso_wf t s"
  shows "\<exists>s'. tso_flushAfterInsn s t = Ok s' \<and> tso_wf t s' \<and> tso_view t s' = tso_view t s \<and>
    tso_bufferSize (rt_buffer s' t) < tso_kMaxBufferSize"
proof -
  have "inputSize (rt_input s) = 0"
    using assms by (simp add: tso_wf_def)
  then show ?thesis
    using tso_flushAll_spec [OF assms] assms by (simp add: tso_flushAfterInsn_def tso_kMaxBufferSize_def)
qed

lemma tso_retrieve_spec:
  assumes "tso_wf t s"
  shows "\<exists>s' hi. tso_retrieve junk s t a n = Ok (of_le_bytes (read_bytes a n (tso_view t s) @ hi), s') \<and>
    tso_wf t s' \<and> tso_view t s' = tso_view t s \<and> tso_bufferSize (rt_buffer s' t) < tso_kMaxBufferSize"
proof -
  have "map (\<lambda>i. let a = a + of_nat i in case last_entry (rt_buffer s t) a of None \<Rightarrow> rt_mem s a | Some b \<Rightarrow> b) [0..<n]
      = read_bytes a n (tso_view t s)"
    by (simp add: read_bytes_def tso_view_def Let_def)
  then show ?thesis
    using tso_after_insn [OF assms] by (auto simp: tso_retrieve_def Let_def)
qed

lemma tso_store_spec:
  assumes "tso_wf t s" and "whole_size n"
  shows "\<exists>s'. tso_store s t a v n = Ok s' \<and> tso_wf t s' \<and>
    tso_view t s' = write_bytes a (le_bytes n v) (tso_view t s) \<and>
    tso_bufferSize (rt_buffer s' t) < tso_kMaxBufferSize"
proof -
  let ?e = "(a, \<lparr>entry_value = v, entry_size = n\<rparr>)"
  define le where "le = fold (\<lambda>i le. le(a + of_nat i := Some (ucast (drop_bit (8 * i) v)))) [0..<n]
    (last_entry (rt_buffer s t))"
  define s1 where "s1 = upd_buffer t (\<lambda>b. b\<lparr>last_entry := le, indexed := indexed b @ [?e],
    tso_bufferSize := tso_bufferSize b + 1\<rparr>) s"
  have n: "n \<le> 2 ^ 64" using assms(2) by (auto simp: whole_size_def)
  have b: "last_entry (rt_buffer s1 t) = le" "indexed (rt_buffer s1 t) = indexed (rt_buffer s t) @ [?e]"
    "rt_mem s1 = rt_mem s" "rt_input s1 = rt_input s"
    by (simp_all add: s1_def)
  have v: "tso_view t s1 = write_bytes a (le_bytes n v) (tso_view t s)"
    by (auto simp: fun_eq_iff tso_view_def b le_def fold_bytes [OF n] write_bytes_def le_bytes_def
        split: option.split)
  have "tso_wf t s1"
    using assms by (auto simp: tso_wf_def b v flush_whole)
  from tso_after_insn [OF this] show ?thesis
    by (simp add: tso_store_def Let_def v flip: le_def s1_def)
qed

section \<open>The runtime as a thread's memory\<close>

lemma tso_view_lock [simp]: "tso_view t (s\<lparr>rt_locked := l\<rparr>) = tso_view t s"
  by (simp add: tso_view_def fun_eq_iff split: option.split)

lemma tso_wf_lock [simp]: "tso_wf t (s\<lparr>rt_locked := l\<rparr>) = tso_wf t s"
  by (simp add: tso_wf_def)

lemma tso_load_law:
  assumes "tso_inv t s" and "whole_access a n"
  shows "\<exists>s'. ssb_tso_load junk s t a n = Ok (of_le_bytes (read_bytes a n (tso_view t s)), s') \<and>
    tso_inv t s' \<and> tso_view t s' = tso_view t s"
proof -
  have "tso_wf t (s\<lparr>rt_locked := True\<rparr>)" and n: "8 * n \<le> 64" and free: "\<not> rt_locked s"
    using assms by (auto simp: tso_inv_def whole_access_def whole_size_def)
  from tso_retrieve_spec [OF this(1), of junk a n] obtain s' hi where
    r: "tso_retrieve junk (s\<lparr>rt_locked := True\<rparr>) t a n = Ok (of_le_bytes (read_bytes a n (tso_view t s) @ hi), s')"
    "tso_wf t s'" "tso_view t s' = tso_view t s" "tso_bufferSize (rt_buffer s' t) < tso_kMaxBufferSize"
    by auto
  show ?thesis
    using r free by (simp add: ssb_tso_load_def ssb_load_def serialized_free load_callback_tso_def
        BIT_MASK_eq [OF n] of_le_bytes_append_mask tso_inv_def)
qed

lemma tso_store_law:
  assumes "tso_inv t s" and "whole_access a n"
  shows "\<exists>s'. ssb_tso_store s t a v n = Ok s' \<and> tso_inv t s' \<and>
    tso_view t s' = write_bytes a (le_bytes n v) (tso_view t s)"
proof -
  have "tso_wf t (s\<lparr>rt_locked := True\<rparr>)" and w: "whole_size n" and n: "8 * n \<le> 64" and free: "\<not> rt_locked s"
    using assms by (auto simp: tso_inv_def whole_access_def whole_size_def)
  from tso_store_spec [OF this(1) w, of a "v AND BIT_MASK (8 * n)"] free show ?thesis
    by (auto simp: ssb_tso_store_def ssb_store_def serialized_free store_callback_tso_def tso_inv_def
        BIT_MASK_eq [OF n] le_bytes_mask)
qed

lemma tso_fence_law:
  assumes "tso_inv t s"
  shows "\<exists>s'. ssb_tso_flush s t = Ok s' \<and> tso_inv t s' \<and> tso_view t s' = tso_view t s \<and>
    rt_mem s' = tso_view t s"
  using assms tso_flushAll_spec [of t "s\<lparr>rt_locked := True\<rparr>"]
  by (simp add: tso_inv_def ssb_tso_flush_def serialized_free flush_callback_tso_def tso_kMaxBufferSize_def)

interpretation tso: thread_memory "tso_inv t" whole_access "tso_view t" rt_mem
  "\<lambda>s. ssb_tso_load junk s t" "\<lambda>s. ssb_tso_store s t" "\<lambda>s. ssb_tso_flush s t" for t junk
  by unfold_locales (rule tso_load_law tso_store_law tso_fence_law; assumption)+

lemma tso_start_inv: "tso_inv t (tso_start m)" and tso_start_view: "tso_view t (tso_start m) = m"
  by (simp_all add: tso_inv_def tso_wf_def tso_start_def empty_tso_def zero_input_def
      tso_kMaxBufferSize_def tso_view_def fun_eq_iff)

end
