(* ===== verification/Ssb_Properties.thy ===== *)
theory Ssb_Properties
  imports Ssb_Pass_Spec Pso_Buffer Tso_Buffer
begin

text \<open>
  The properties of the software store buffer: what the compiler pass guarantees of instrumented code
  and what the two runtimes guarantee to a thread that runs it.
\<close>

section \<open>The compiler pass\<close>

text \<open>An LLVM that answers simply, the default options, and a function with one instruction of each class.\<close>

definition example_llvm :: llvm where
  "example_llvm = \<lparr>stripInBoundsOffsets = (\<lambda>a. a), getUnderlyingObject = (\<lambda>a. a), PointerMayBeCaptured = (\<lambda>_. False),
     getPointerAddressSpace = (\<lambda>_. 0), isSwiftError = (\<lambda>_. False), getTypeStoreSizeInBits = (\<lambda>_. 64),
     getInstrProfSectionName = ''__llvm_prf_cnts''\<rparr>"

definition example_opts :: options where
  "example_opts = \<lparr>ClInstrumentOutofScopeCalls = True, ClFlushEntryOnly = False, ClInstrumentFlush = True,
     ClMemoryModel = ''PSO'', ClArchitecture = ''x86_64'', ClSecondPass = True\<rparr>"

definition example_function :: ir_function where
  "example_function = \<lparr>fn_name = ''f'', fn_section = [], fn_weak = False, fn_no_ssb = False,
     fn_blocks = [[AllocaInst True, StoreInst (OtherValue 1) False False, AtomicRMWInst,
       CallInst \<lparr>called_function = Some ''g'', indirect_call = False, inline_asm = None, intrinsic_id = None\<rparr>,
       LoadInst (AllocaAddr 2) False False, ReturnInst]]\<rparr>"

lemmas example_defs = example_llvm_def example_opts_def example_function_def

lemmas classify_defs = fencing_def plain_call_def call_of_def barrier_call_def leaving_call_def stops_def
  isAtomic_def isRMWBitOps_def RMWBitOpsFunc_def isMemBarrierOfTargetArch_def isBUG_def isBUG_X86_64_def
  isInterestingLoadStore_def chosen_def shouldInstrumentReadWriteFromAddress_def addrPointsToConstantData_def
  isOutofScopeCall_def isKasanCheckReadWrite_def isKmemcovTraceCallback_def isKssbHistoryCallback_def
  isAnnotatedInlineAsm_def isIndirectCall_def isNotInstrumentedCall_def calleeFunctionStartsWith_def
  TargetArchitecture_def

lemma example_instrumentable: "instrumentable example_opts example_function"
  by (simp add: instrumentable_def example_defs)

lemma example_cells:
  "concat (cells example_function) = map (\<lambda>k. ((0, k), hd (fn_blocks example_function) ! k)) [0..<6]"
  by (simp add: cells_def example_defs upt_rec numeral_eq_Suc)

lemma example_reached: "reached example_opts example_function = concat (cells example_function)"
  by (simp add: reached_def cells_def example_defs classify_defs upt_rec numeral_eq_Suc)

lemma example_cell: "k < 6 \<Longrightarrow> ((0, k), hd (fn_blocks example_function) ! k) \<in> set (concat (cells example_function))"
  unfolding example_cells by simp

text \<open>
  C4: For every instruction of a function the pass may instrument, the loops that collect and instrument give
  exactly the closed description: the entry callback at the first place of the entry block, one flush for a memory
  barrier, one for an atomic access or a bit operation with return, one for a call that leaves the instrumented
  code, a return check before a return, and a load or store callback exactly for the plain accesses that were
  reached, may race and have a supported size.
\<close>

theorem pass_plan:
  assumes "instrumentable opts F" and "x \<in> set (concat (cells F))"
  shows "guards (fst (snd (instrumentAll opts L IFL F out)) (fst x)) = planned_guards opts IFL F x \<and>
    emulation (fst (snd (instrumentAll opts L IFL F out)) (fst x)) = planned_emulation opts L F x"
proof -
  obtain changed p out' where "instrumentAll opts L IFL F out = (changed, p, out')"
    by (cases "instrumentAll opts L IFL F out")
  then show ?thesis
    using instrumentAll_plan [of opts F "fst x" "snd x" L IFL out changed p out'] assms by simp
qed

theorem pass_plan_witness:
  "guards (fst (snd (instrumentAll example_opts example_llvm {''f''} example_function [])) (0, 3)) = [([SSBFlush, SSBLfence], False)]"
  using pass_plan [OF example_instrumentable example_cell [of 3], where L = example_llvm and IFL = "{''f''}" and out = "[]"]
    example_cell [of 3]
  by (simp add: planned_guards_def Let_def example_reached)
    (simp add: example_defs classify_defs getFirstNonPHIOrDbgOrAlloca_def first_non_phi_def skippable_def is_eh_pad_def numeral_eq_Suc)

text \<open>
  C9: In emulated code no plain access bypasses the store buffer: a load or store that is reached, may race and has a
  supported size runs as the callback of its own size and the access itself does not run.
\<close>

theorem no_access_bypasses:
  assumes "instrumentable opts F" and "(r, i) \<in> set (reached opts F)" and "isInterestingLoadStore i" and "chosen L i"
    and "\<not> isSwiftError L (pointer_operand i)" and "getTypeStoreSizeInBits L (pointer_operand i) = 8 * 2 ^ k" and "k < 4"
  shows "\<exists>pre. run_site 1 (fst (snd (instrumentAll opts L IFL F out))) (r, i) =
    pre @ [Callback (if is_store i then SSBStore k else SSBLoad k) False] \<and> (\<forall>j. Original j \<notin> set pre)"
proof -
  obtain changed p out' where p: "instrumentAll opts L IFL F out = (changed, p, out')"
    by (cases "instrumentAll opts L IFL F out")
  have c: "(r, i) \<in> set (concat (cells F))"
    using assms(2) reached_subset [of opts F] by blast
  have "getMemoryAccessFuncIndex L (pointer_operand i) = int k"
    using assms(6,7) by (rule access_index_size)
  then have "access_callback L i = Some (if is_store i then SSBStore k else SSBLoad k)"
    using assms(5) by (simp add: access_callback_def Let_def)
  then have "emulation (p r) = Some (if is_store i then SSBStore k else SSBLoad k)"
    using instrumentAll_plan(2) [OF assms(1) c p] assms(2-4) by (simp add: planned_emulation_def)
  then show ?thesis
    unfolding p run_site_def by auto
qed

theorem no_access_bypasses_witness:
  "\<exists>pre. run_site 1 (fst (snd (instrumentAll example_opts example_llvm {''f''} example_function []))) ((0, 1), StoreInst (OtherValue 1) False False) =
     pre @ [Callback (SSBStore 3) False] \<and> (\<forall>j. Original j \<notin> set pre)"
proof -
  let ?i = "StoreInst (OtherValue 1) False False"
  have "hd (fn_blocks example_function) ! 1 = ?i" by (simp add: example_function_def)
  then have "((0, 1), ?i) \<in> set (reached example_opts example_function)"
    using example_cell [of 1] by (simp add: example_reached)
  moreover have "isInterestingLoadStore ?i" "chosen example_llvm ?i" "\<not> isSwiftError example_llvm (pointer_operand ?i)"
    "getTypeStoreSizeInBits example_llvm (pointer_operand ?i) = 8 * 2 ^ 3"
    by (simp_all add: classify_defs example_llvm_def)
  ultimately show ?thesis
    using no_access_bypasses [OF example_instrumentable, of "(0, 1)" ?i example_llvm 3 "{''f''}" "[]"] by simp
qed

text \<open>
  C26: An atomic access that is reached has a flush and a load fence directly in front of it when emulation is on,
  and it then runs itself: what was buffered before it is in memory when it executes.
\<close>

theorem atomic_access_flushes:
  assumes "instrumentable opts F" and "(r, i) \<in> set (reached opts F)" and "isAtomic i"
  shows "\<exists>pre. run_site 1 (fst (snd (instrumentAll opts L IFL F out))) (r, i) =
    pre @ [Callback SSBFlush False, Callback SSBLfence False, Original i]"
proof -
  obtain changed p out' where p: "instrumentAll opts L IFL F out = (changed, p, out')"
    by (cases "instrumentAll opts L IFL F out")
  have c: "(r, i) \<in> set (concat (cells F))"
    using assms(2) reached_subset [of opts F] by blast
  have i: "fencing i" "\<not> plain_call i" "i \<noteq> ReturnInst" "\<not> isInterestingLoadStore i"
    using assms(3) interesting_plain [of i] return_plain by (auto simp: fencing_def plain_call_def)
  have "\<exists>gs. guards (p r) = gs @ [([SSBFlush, SSBLfence], False)]" and "emulation (p r) = None"
    using instrumentAll_plan(1,2) [OF assms(1) c p] assms(2) i
    by (simp_all add: planned_guards_def planned_emulation_def barrier_call_def leaving_call_def Let_def)
  then show ?thesis
    unfolding p by (auto simp: run_site_def)
qed

theorem atomic_access_flushes_witness:
  "\<exists>pre. run_site 1 (fst (snd (instrumentAll example_opts example_llvm {''f''} example_function []))) ((0, 2), AtomicRMWInst) =
     pre @ [Callback SSBFlush False, Callback SSBLfence False, Original AtomicRMWInst]"
proof -
  have "hd (fn_blocks example_function) ! 2 = AtomicRMWInst" by (simp add: example_function_def)
  then have "((0, 2), AtomicRMWInst) \<in> set (reached example_opts example_function)"
    using example_cell [of 2] by (simp add: example_reached)
  then show ?thesis
    using atomic_access_flushes [OF example_instrumentable, of "(0, 2)" AtomicRMWInst example_llvm "{''f''}" "[]"]
    by (simp add: isAtomic_def)
qed



text \<open>
  C27: The entry functions of interrupts and system calls are never emulated, and they flush before the end of their entry
  block and at the start of every other block that returns.
\<close>

theorem entry_functions_flush_only:
  assumes "isIRQEntryOfTargetArch opts F \<or> isSyscallEntryOfTargetArch opts F" and "ClInstrumentFlush opts"
    and "instrumentFunction opts L IFL F out = (changed, p, out')"
  shows "(\<forall>r. emulation (p r) = None) \<and>
    ([SSBFlush, SSBLfence], False) \<in> set (guards (p (0, length (hd (fn_blocks F)) - 1))) \<and>
    (\<forall>b. 0 < b \<and> b < length (fn_blocks F) \<and> ReturnInst \<in> set (fn_blocks F ! b) \<longrightarrow>
       ([SSBFlush, SSBLfence], False) \<in> set (guards (p (b, first_non_phi (fn_blocks F ! b)))))"
proof -
  have "p = snd (instrumentFlushOnly opts F True)"
    using assms(1,3) by (auto simp: instrumentFunction_def Let_def split: prod.splits)
  then show ?thesis
    using flush_only_site [OF assms(2)] by simp
qed

theorem entry_functions_flush_only_witness:
  "\<exists>p. snd (instrumentFunction example_opts example_llvm {} (example_function\<lparr>fn_name := ''do_syscall_64''\<rparr>) []) = (p, []) \<and>
     (\<forall>r. emulation (p r) = None)"
proof -
  let ?F = "example_function\<lparr>fn_name := ''do_syscall_64''\<rparr>"
  have e: "isSyscallEntryOfTargetArch example_opts ?F" and f: "ClInstrumentFlush example_opts"
    by (simp_all add: isSyscallEntryOfTargetArch_def isEntry_def SyscallEntryX86_64_def TargetArchitecture_def example_defs)
  obtain changed p out' where r: "instrumentFunction example_opts example_llvm {} ?F [] = (changed, p, out')"
    by (cases "instrumentFunction example_opts example_llvm {} ?F []")
  then have "out' = []"
    using e by (auto simp: instrumentFunction_def Let_def split: prod.splits)
  then show ?thesis
    using entry_functions_flush_only [OF _ f r] e r by auto
qed

text \<open>
  C29: The second pass reads back the list the first pass wrote: exactly the names of the functions that are neither entry
  functions, nor excluded by attribute or section, nor weak.
\<close>

theorem function_list_round_trip:
  assumes "\<not> ClSecondPass opts" and "ClSecondPass opts'" and "\<forall>F\<in>set Fs. symbol_name (fn_name F)"
  shows "read_IFL opts' (snd (run_pass opts L IFL Fs [])) = fn_name ` {F \<in> set Fs. recorded opts F}"
  using assms by (rule read_recorded)

theorem function_list_round_trip_witness:
  "read_IFL example_opts (snd (run_pass (example_opts\<lparr>ClSecondPass := False\<rparr>) example_llvm {}
     [example_function, example_function\<lparr>fn_name := ''w'', fn_weak := True\<rparr>] [])) = {''f''}"
proof -
  have "recorded (example_opts\<lparr>ClSecondPass := False\<rparr>) example_function"
    by (simp add: recorded_def isIRQEntryOfTargetArch_def isHardIRQEntryOfTargetArch_def isSoftIRQEntryOfTargetArch_def
        isSyscallEntryOfTargetArch_def isEntry_def TargetArchitecture_def IRQEntriesX86_64_def SyscallEntryX86_64_def example_defs)
  then have "{F \<in> set [example_function, example_function\<lparr>fn_name := ''w'', fn_weak := True\<rparr>].
      recorded (example_opts\<lparr>ClSecondPass := False\<rparr>) F} = {example_function}"
    by (auto simp: recorded_def)
  then show ?thesis
    using function_list_round_trip [of "example_opts\<lparr>ClSecondPass := False\<rparr>" example_opts
        "[example_function, example_function\<lparr>fn_name := ''w'', fn_weak := True\<rparr>]" example_llvm "{}"]
    by (simp add: symbol_name_def newline_def example_opts_def) (simp add: example_function_def)
qed

section \<open>The runtimes\<close>

text \<open>
  C7: Through the partial-store-order runtime a thread sees its own accesses in order, whatever input drains the buffer:
  a run of aligned eight-byte loads, stores and fences returns the values a plain memory would return, and after a
  final fence the shared memory holds what that memory would hold.
\<close>

theorem pso_thread_sequential:
  assumes "pso_inv t s" and "list_all (op_ok word_access) ops"
  shows "\<exists>s'. run_ops (\<lambda>s. ssb_pso_load s t) (\<lambda>s. ssb_pso_store s t) (\<lambda>s. ssb_pso_flush s t) (ops @ [Fence]) s =
      Ok (fst (seq_run ops (pso_view t s)), s') \<and> rt_mem s' = snd (seq_run ops (pso_view t s))"
  using assms by (rule pso.run_then_fence)

theorem pso_thread_sequential_witness:
  "\<exists>s'. run_ops (\<lambda>s. ssb_pso_load s 7) (\<lambda>s. ssb_pso_store s 7) (\<lambda>s. ssb_pso_flush s 7)
     ([Store 0x1000 5 8, Store 0x1000 6 8, Load 0x1000 8, Store 0x1008 9 8] @ [Fence]) (pso_start (\<lambda>_. 0)) = Ok ([6], s')"
  using pso_thread_sequential [OF pso_start_inv [of 7 "\<lambda>_. 0"], where ops = "[Store 0x1000 5 8, Store 0x1000 6 8, Load 0x1000 8, Store 0x1008 9 8]"]
  by (auto simp: word_access_def aligned8_def pso_start_view read_write_le of_le_bytes_le_bytes)

text \<open>
  C8: The same holds of the total-store-order runtime for accesses of one and eight bytes while no input is fed and
  no other thread writes.
\<close>

theorem tso_thread_sequential:
  assumes "tso_inv t s" and "list_all (op_ok whole_access) ops"
  shows "\<exists>s'. run_ops (\<lambda>s. ssb_tso_load junk s t) (\<lambda>s. ssb_tso_store s t) (\<lambda>s. ssb_tso_flush s t) (ops @ [Fence]) s =
      Ok (fst (seq_run ops (tso_view t s)), s') \<and> rt_mem s' = snd (seq_run ops (tso_view t s))"
  using assms by (rule tso.run_then_fence)

theorem tso_thread_sequential_witness:
  "\<exists>s'. run_ops (\<lambda>s. ssb_tso_load 0xff s 7) (\<lambda>s. ssb_tso_store s 7) (\<lambda>s. ssb_tso_flush s 7)
     ([Store 0x1000 5 8, Store 0x1000 6 8, Load 0x1000 8, Store 0x1003 9 1] @ [Fence]) (tso_start (\<lambda>_. 0)) = Ok ([6], s')"
  using tso_thread_sequential [OF tso_start_inv [of 7 "\<lambda>_. 0"], where junk = "0xff" and ops =
         "[Store 0x1000 5 8, Store 0x1000 6 8, Load 0x1000 8, Store 0x1003 9 1]"]
  by (auto simp: whole_access_def whole_size_def tso_start_view read_write_le of_le_bytes_le_bytes)







text \<open>
  C33: Reading the input vector never divides by zero and never leaves the array, once something was fed.
\<close>

theorem input_next_in_bounds:
  assumes "input_ok iv" and "feedInput iv v = Ok iv'" and "v \<noteq> []"
  shows "\<exists>n iv''. input_next iv' = Ok (n, iv'') \<and> input_ok iv'' \<and> inputSize iv'' = length v"
proof -
  have "inputSize iv' = length v"
    using assms(2) by (auto simp: feedInput_def split: if_splits)
  then show ?thesis
    using input_next_ok [OF input_ok_feed [OF assms(1,2)]] assms(3) by simp
qed

theorem input_next_in_bounds_witness:
  "\<exists>iv n iv''. feedInput zero_input [3, 1] = Ok iv \<and> input_next iv = Ok (n, iv'') \<and> input_ok iv''"
  using input_next_in_bounds [OF input_ok_zero, of "[3, 1]"] by (auto simp: feedInput_def kMaxInputSize_def)

section \<open>Flaws of the total-store-order runtime\<close>

text \<open>
  \<open>flushAllEntries\<close> keeps the queue it has written, so a later fence writes it again: here a fence of thread 0
  undoes a store of thread 1 that was made and fenced after thread 0's.
\<close>

lemma tso_fence_rewrites_old_store:
  "\<exists>s1 s2 s3 s4 s5. ssb_tso_store (tso_start (\<lambda>_. 0)) 0 0x1000 1 8 = Ok s1 \<and> ssb_tso_flush s1 0 = Ok s2 \<and>
     ssb_tso_store s2 1 0x1000 2 8 = Ok s3 \<and> ssb_tso_flush s3 1 = Ok s4 \<and> ssb_tso_flush s4 0 = Ok s5 \<and>
     rt_mem s4 0x1000 = 2 \<and> rt_mem s5 0x1000 = 1"
  by (simp add: ssb_tso_store_def ssb_store_def serialized_free store_callback_tso_def tso_start_def empty_tso_def zero_input_def
      tso_store_def upd_buffer_def Let_def BIT_MASK_def tso_flushAfterInsn_def tso_kMaxBufferSize_def ssb_tso_flush_def
      flush_callback_tso_def tso_flushAllEntries_def tso_flushEntry_def write_bytes_def le_bytes_def)

text \<open>A two-byte store reaches memory as the sign extension of its low byte.\<close>

lemma tso_two_byte_store_truncated:
  "\<exists>s1 s2. ssb_tso_store (tso_start (\<lambda>_. 0)) 0 0x1000 0x1234 2 = Ok s1 \<and> ssb_tso_flush s1 0 = Ok s2 \<and>
     rt_mem s2 0x1000 = 0x34 \<and> rt_mem s2 0x1001 = 0"
  by (simp add: sign_char_def scast_eq ssb_tso_store_def ssb_store_def serialized_free store_callback_tso_def tso_start_def empty_tso_def zero_input_def
      tso_store_def upd_buffer_def Let_def BIT_MASK_def tso_flushAfterInsn_def tso_kMaxBufferSize_def ssb_tso_flush_def
      flush_callback_tso_def tso_flushAllEntries_def tso_flushEntry_def write_bytes_def le_bytes_def)

end
