(* ===== verification/Spec2Isabelle.thy ===== *)
theory Spec2Isabelle
  imports Scenario Window_Properties Memory_Properties Component_Properties Ssb_Properties
begin

text \<open>
  \<^bold>\<open>The program.\<close> OZZ finds concurrency bugs of a guest kernel that need store reordering and a particular interleaving. Two
  parts of it are written in this repository. QCSCHED, a patch to QEMU (\<^verbatim>\<open>src/tools/qemu/qcsched\<close>), makes the
  virtual CPUs of a KVM guest follow a schedule: a list of instruction addresses, the scheduling points, each for one CPU, in a total order. It
  arms hardware breakpoints for the points, stops a CPU that reaches its point before its turn and resumes it when the
  turn comes. SoftStoreBuffer (\<^verbatim>\<open>src/tools/SoftStoreBufferPass\<close>) is an LLVM pass that routes the memory accesses of
  the kernel through callbacks, with a runtime whose store buffers delay the stores under the control of an input. The
  fuzzer drives both through hypercalls.

  \<^bold>\<open>State and results.\<close> The variables of the scheduler, the per-CPU fields, the breakpoint tables, the debug
  registers, the iothread lock, page tables and guest memory form the record \<open>qstate\<close> (theory \<open>Guest_State\<close>); its
  records and enumerations carry the names of the C headers under \<^verbatim>\<open>include/qemu/qcsched\<close>. An operation takes the state and
  returns the new one. Where the C code can end the process (\<^verbatim>\<open>ASSERT\<close>, \<^verbatim>\<open>g_assert\<close>), leave an array, follow a null pointer, divide by
  zero or loop for ever, the operation returns a \<open>res\<close>, and that case is a \<open>Fault\<close> (theory \<open>Qcs_Prelude\<close>, with the predicate
  \<open>res_spec b P r\<close>: a result satisfies \<open>P\<close>, and if \<open>b\<close> there is one). C arrays are functions of \<open>int\<close>, \<^verbatim>\<open>int\<close> is
  \<open>int\<close>, and \<^verbatim>\<open>target_ulong\<close>, the arguments of hypercalls and memory are words of their width. KVM, the host's system calls and
  LLVM are not in the repository; what they answer is the record \<open>external\<close>, the argument \<open>run_out\<close> of a round and
  the record \<open>llvm\<close>, and what the code relies on is stated as hypotheses (\<open>io_ok\<close>, \<open>host_ok\<close>, \<open>guest_ok\<close>, \<open>mapped\<close>).

  \<^bold>\<open>The scheduler.\<close>
  \<^item> \<open>Kvm_Breakpoint\<close>: the per-CPU breakpoint tables and debug registers (\<^verbatim>\<open>target/i386/kvm/kvm-percpu.c\<close>,
    \<^verbatim>\<open>accel/kvm/kvm-percpu.c\<close>); the locale \<open>bp_table\<close> is the contract the window relies on.
  \<^item> \<open>Cpu_State\<close>, \<open>Guest_Memory\<close> (over \<open>Byte_Memory\<close>), \<open>Vmi\<close>, \<open>Kssb\<close>: CPU states, cookies and the iothread lock (\<^verbatim>\<open>state.c\<close>, \<^verbatim>\<open>cookie.c\<close>),
    \<^verbatim>\<open>cpu_memory_rw_debug\<close>, the introspection (\<^verbatim>\<open>vmi.c\<close>) and the switch of the emulation (\<^verbatim>\<open>kssb.c\<close>).
  \<^item> \<open>Window\<close>: the windows over the schedule (\<^verbatim>\<open>window.c\<close>).
  \<^item> \<open>Exec_Control\<close>: stopping and resuming a task (\<^verbatim>\<open>blocker.c\<close>, \<^verbatim>\<open>exec_control.c\<close>, \<^verbatim>\<open>timer.c\<close>), with the
    locale \<open>task_control\<close> that the blocker and the trampoline both interpret.
  \<^item> \<open>Breakpoint\<close>, \<open>Hcall\<close>, \<open>Kvm_Run\<close>: the breakpoint handler with its watchdog (\<^verbatim>\<open>breakpoint.c\<close>), the hypercalls (\<^verbatim>\<open>hcall.c\<close>), and
    the vCPU loop around them (\<^verbatim>\<open>qcsched.c\<close>, \<^verbatim>\<open>accel/kvm/kvm-all.c\<close>).
  \<^item> \<open>Trampoline\<close>: the functions of the build with \<^verbatim>\<open>CONFIG_QCSCHED_TRAMPOLINE\<close>, including the recording of locks.

  \<^bold>\<open>The invariant.\<close> \<open>Sched_Inv\<close> defines \<open>sched_inv\<close>; \<open>Window_Inv\<close>, \<open>Shrink_Inv\<close>, \<open>Close_Inv\<close>, \<open>Prune_Inv\<close>,
  \<open>Breakpoint_Inv\<close>, \<open>Reset_Inv\<close>, \<open>Handover_Inv\<close>, \<open>Activate_Inv\<close>, \<open>Hcall_Inv\<close> and \<open>Kvm_Run_Inv\<close> show that every operation keeps it and
  that, with a working host, no assertion of the code fails. \<open>Kvm_Run_Inv\<close> ends with the step relation of the machine, in which
  rounds of the vCPU threads and signals interleave, and the states reachable from a reset. \<open>Scenario\<close> is a concrete moment of a
  run on which the properties are evaluated.

  \<^bold>\<open>The store buffer.\<close> \<open>Ssb_Pass\<close> is the whole pass (\<^verbatim>\<open>pass/SSBPass.cpp\<close>): classification of instructions, collection, instrumentation
  and the list of functions; a function is its list of basic blocks and the result is a plan that says which callbacks guard or replace
  which instruction. \<open>Ssb_Pass_Spec\<close> gives the closed description of the plan. \<open>Ssb_Runtime\<close> holds the callbacks of the headers under
  \<^verbatim>\<open>include/runtime\<close> over an arbitrary buffer, the input vector and the locale \<open>thread_memory\<close>: what a buffer must satisfy for a
  thread to see its own accesses in order. \<open>Pso_Buffer\<close> and \<open>Tso_Buffer\<close> (\<^verbatim>\<open>runtime/PSOCallbacks.cpp\<close>, \<^verbatim>\<open>runtime/TSOCallbacks.cpp\<close>)
  interpret it.

  \<^bold>\<open>What is shown.\<close> This theory holds the properties that span the components of the scheduler: consistency of every reachable state and the bounds it
  gives, survival of the handlers and of a round, the reset, and the stopping and resuming of CPUs. \<open>Window_Properties\<close>
  shows that expanding a window refines an abstract queue of points, what closing leaves behind, and that the cleanup loop ends. \<open>Memory_Properties\<close>
  shows that page-wise guest access is byte-wise access through the page tables, with the footprint report and the emulation
  switch on top. \<open>Component_Properties\<close> covers debug registers, error codes, the barrier of the activation, the watchdog, the
  trampoline and the recorded locks. \<open>Ssb_Properties\<close> covers the pass and the runtimes.

  \<^bold>\<open>Bounds and fuel.\<close> The only loop that is not structural or over a fixed list is that of \<open>cleanup_loop\<close>. It runs with a fuel of 258 rounds; every round moves
  to a later entry and there are at most 256, and C19 shows that every larger fuel gives the same result. The page loop of
  \<open>cpu_memory_rw_debug\<close> is defined by well-founded recursion on the bytes left.

  \<^bold>\<open>Not modelled.\<close> The handlers are atomic: \<^verbatim>\<open>run_on_cpu\<close> releases the iothread lock while it waits for another CPU, and an
  interleaving inside a handler at that point is not represented. \<^verbatim>\<open>cpu_synchronize_state\<close> is taken to have no effect beyond the register copies
  of the vCPU loop. Debug output is omitted, except where it reads an array. At most eight CPUs exist, as \<^verbatim>\<open>MAX_CPUS\<close> says. Exits of the guest the scheduler does
  not handle are an argument of the round. The breakpoint handlers of the trampoline build are left out, since the default build does not compile
  them. The rest of QEMU, the syzkaller fuzzer and executor, the kernels (a submodule), build scripts, configurations and tests are outside: they
  meet this code only through hypercalls and callbacks, whose arguments are arbitrary here.
\<close>

section \<open>Reachable states\<close>









section \<open>The handlers\<close>







definition example_out :: run_out where
  "example_out = \<lparr>run_ret = 0, exit_reason = Exit_other EXCP_DEBUG, guest_regs = zero_regs\<lparr>rip := 0x2000\<rparr>, guest_pmem = \<lambda>_. 0\<rparr>"




section \<open>Stopping and resuming\<close>

lemma stopped_round:
  assumes "blocked (infos s c)"
  shows "kvm_cpu_exec_round s c sw_bps out = kvm_cpu_exec_round s c sw_bps' out'"
proof (cases "qcsched_pre_run s c")
  case (Ok x)
  then obtain u where "x = (False, u)"
    using pre_run_spec [of False s c] assms by (cases x) auto
  then show ?thesis
    using Ok by (simp add: kvm_cpu_exec_round_def kvm_run_def kvm_cpu_kick_def upd_cpu_def errno_defs)
qed (simp add: kvm_cpu_exec_round_def)

text \<open>
  C12: A stopped CPU stays out of the guest: whatever the guest would do if it were entered, a round of the vCPU loop of that CPU has
  the same outcome and returns to the main loop as if interrupted; unless the CPU is to be woken up it is stopped afterwards too.
\<close>

theorem stopped_cpu_stays_out:
  assumes "sched_inv s" and "c \<in> set (cpus s)" and "blocked (infos s c)" and "io_ok s" and "\<not> iothread_locked s"
    and "current_cpu s = c" and "ext_get_regs (ext s) c = 0" and "ext_set_regs (ext s) c = 0"
  shows "\<exists>t. (\<forall>sw_bps out. kvm_cpu_exec_round s c sw_bps out = Ok (EXCP_INTERRUPT, t)) \<and> sched_inv t \<and>
    (\<not> waking_up (infos s c) \<longrightarrow> blocked (infos t c))"
proof -
  obtain t where "kvm_cpu_exec_round s c [] undefined = Ok (EXCP_INTERRUPT, t)" "sched_inv t"
    "\<not> waking_up (infos s c) \<longrightarrow> blocked (infos t c)"
    using res_spec_total [OF idle_round_spec [OF assms(1,2), of True "[]" undefined]] assms by auto
  then show ?thesis
    using stopped_round [OF assms(3)] by metis
qed

definition example_stopped :: qstate where
  "example_stopped = example_armed\<lparr>infos := (infos example_armed)(1 := (infos example_armed 1)\<lparr>blocked := True\<rparr>)\<rparr>"

lemma stopped_inv: "sched_inv example_stopped"
  unfolding example_stopped_def
  by (rule sched_inv_infos [OF armed_inv]) (auto split: if_splits)

lemma stopped_simps [simp]:
  "cpus example_stopped = [0, 1, 2]" "blocked (infos example_stopped 1)" "\<not> waking_up (infos example_stopped 1)"
  "io_ok example_stopped" "\<not> iothread_locked example_stopped" "current_cpu example_stopped = 1"
  "ext_get_regs (ext example_stopped) 1 = 0" "ext_set_regs (ext example_stopped) 1 = 0"
  by (simp_all add: example_stopped_def io_ok_def ideal_external_def)

theorem stopped_cpu_stays_out_witness:
  "\<exists>t. kvm_cpu_exec_round example_stopped 1 [] example_out = Ok (EXCP_INTERRUPT, t) \<and> blocked (infos t 1)"
  using stopped_cpu_stays_out [OF stopped_inv, of 1] by auto

text \<open>
  C11: No CPU is stopped for ever: once the timer has signalled a stopped CPU, its next round or the one after it resumes the
  CPU, whatever the guest would do, and the invariant holds again.
\<close>

theorem signalled_cpu_resumes:
  assumes "sched_inv s" and "c \<in> set (cpus s)" and "blocked (infos s c)" and "io_ok s" and "\<not> iothread_locked s"
    and "current_cpu s = c" and "ext_get_regs (ext s) c = 0" and "ext_set_regs (ext s) c = 0"
  shows "\<exists>t. kvm_cpu_exec_round (kvm_ipi_signal s c TRAMPOLINE_ESCAPE_MAGIC) c sw_bps out = Ok (EXCP_INTERRUPT, t) \<and>
    (if blocked (infos t c)
     then \<exists>u. kvm_cpu_exec_round t c sw_bps' out' = Ok (EXCP_INTERRUPT, u) \<and> sched_inv u \<and> \<not> blocked (infos u c)
     else sched_inv t)"
proof -
  let ?k = "kvm_ipi_signal s c TRAMPOLINE_ESCAPE_MAGIC"
  have i: "sched_inv ?k" by (rule signal_inv [OF assms(1)])
  have k: "sched_inv ?k" "cpus ?k = cpus s" "blocked (infos ?k c)" "kicked (infos ?k c)" "io_ok ?k" "\<not> iothread_locked ?k"
    "current_cpu ?k = c" "ext_get_regs (ext ?k) c = 0" "ext_set_regs (ext ?k) c = 0"
    using i assms by (simp_all add: kvm_ipi_signal_def kvm_cpu_kick_def upd_info_def upd_cpu_def io_ok_def)
  obtain t where t: "kvm_cpu_exec_round ?k c sw_bps out = Ok (EXCP_INTERRUPT, t)" "sched_inv t" "kept ?k t" "\<not> iothread_locked t"
    "\<not> waking_up (infos ?k c) \<longrightarrow> waking_up (infos t c)" "waking_up (infos ?k c) \<longrightarrow> \<not> blocked (infos t c)"
    using res_spec_total [OF idle_round_spec [OF k(1), of c True sw_bps out]] k assms(2) by auto
  have "\<exists>u. kvm_cpu_exec_round t c sw_bps' out' = Ok (EXCP_INTERRUPT, u) \<and> sched_inv u \<and> \<not> blocked (infos u c)"
    if "blocked (infos t c)"
    using res_spec_total [OF idle_round_spec [OF t(2), of c True sw_bps' out']] that t(3-6) k assms(2)
    by (auto simp: kept_def io_ok_def)
  then show ?thesis using t by auto
qed

theorem signalled_cpu_resumes_witness:
  "\<exists>t. kvm_cpu_exec_round (kvm_ipi_signal example_stopped 1 TRAMPOLINE_ESCAPE_MAGIC) 1 [] example_out = Ok (EXCP_INTERRUPT, t) \<and>
    (if blocked (infos t 1)
     then \<exists>u. kvm_cpu_exec_round t 1 [] example_out = Ok (EXCP_INTERRUPT, u) \<and> sched_inv u \<and> \<not> blocked (infos u 1)
     else sched_inv t)"
  by (rule signalled_cpu_resumes [OF stopped_inv]) simp_all

section \<open>Locks in the default build\<close>

text \<open>
  In the default build the lock hints of the guest are ignored, so in no reachable state do two CPUs count as contending: the test that
  would keep a lock holder running never fires.
\<close>

lemma contention_never_seen:
  assumes "reachable s"
  shows "\<not> qcsched_window_lock_contending s c"
proof -
  have "lock_count (lock_info (vmi_info s) d) = 0" for d
    using reachable_inv [OF assms] by (simp add: sched_inv_def glob_def)
  then have "\<not> qcsched_vmi_lock_contending s c d" for d
    by (simp add: qcsched_vmi_lock_contending_def vmi_lock_info_contending_def)
  then show ?thesis
    by (auto simp: qcsched_window_lock_contending_def Let_def split: option.splits)
qed

end
